theory Spec2Isabelle
  imports Complex_Main
begin

section \<open>Points and tensors\<close>

text \<open>
  The surface interpolators of \<^verbatim>\<open>include/utilities.h\<close> work on deal.II points
  \<^verbatim>\<open>Point<dim>\<close> with \<^verbatim>\<open>double\<close> coordinates. A \<^verbatim>\<open>double\<close> is modelled as a
  \<^typ>\<open>real\<close>: rounding is not modelled. The single place where IEEE arithmetic leaves
  the reals in this code is the quotient \<^verbatim>\<open>0.0 / 0.0\<close> (a NaN) of a degenerate segment
  or triangle; there the model says what the C++ comparisons do with a NaN, and a
  value that is not a finite number is \<^term>\<open>None\<close>.
  Sizes and indices (\<^verbatim>\<open>unsigned int\<close>, \<^verbatim>\<open>unsigned long\<close>) are natural numbers:
  the containers are assumed to hold fewer than \<open>2^32\<close> elements.
\<close>

type_synonym point3 = "real \<times> real \<times> real"
type_synonym point2 = "real \<times> real"

fun add3 :: "point3 \<Rightarrow> point3 \<Rightarrow> point3" where
  "add3 (a, b, c) (x, y, z) = (a + x, b + y, c + z)"

fun sub3 :: "point3 \<Rightarrow> point3 \<Rightarrow> point3" where
  "sub3 (a, b, c) (x, y, z) = (a - x, b - y, c - z)"

fun scale3 :: "real \<Rightarrow> point3 \<Rightarrow> point3" where
  "scale3 t (x, y, z) = (t * x, t * y, t * z)"

fun div3 :: "point3 \<Rightarrow> real \<Rightarrow> point3" where
  "div3 (x, y, z) t = (x / t, y / t, z / t)"

fun dot3 :: "point3 \<Rightarrow> point3 \<Rightarrow> real" where
  "dot3 (a, b, c) (x, y, z) = a * x + b * y + c * z"

fun cross_product_3d :: "point3 \<Rightarrow> point3 \<Rightarrow> point3" where
  "cross_product_3d (a, b, c) (x, y, z) = (b * z - c * y, c * x - a * z, a * y - b * x)"

definition norm_square3 :: "point3 \<Rightarrow> real" where
  "norm_square3 v = dot3 v v"

definition norm3 :: "point3 \<Rightarrow> real" where
  "norm3 v = sqrt (norm_square3 v)"

fun add2 :: "point2 \<Rightarrow> point2 \<Rightarrow> point2" where
  "add2 (a, b) (x, y) = (a + x, b + y)"

fun sub2 :: "point2 \<Rightarrow> point2 \<Rightarrow> point2" where
  "sub2 (a, b) (x, y) = (a - x, b - y)"

fun scale2 :: "real \<Rightarrow> point2 \<Rightarrow> point2" where
  "scale2 t (x, y) = (t * x, t * y)"

fun dot2 :: "point2 \<Rightarrow> point2 \<Rightarrow> real" where
  "dot2 (a, b) (x, y) = a * x + b * y"

definition norm_square2 :: "point2 \<Rightarrow> real" where
  "norm_square2 v = dot2 v v"

definition norm2 :: "point2 \<Rightarrow> real" where
  "norm2 v = sqrt (norm_square2 v)"

text \<open>A default-constructed \<^verbatim>\<open>Point<dim>\<close> is the origin.\<close>

definition origin3 :: point3 where
  "origin3 = (0, 0, 0)"

definition origin2 :: point2 where
  "origin2 = (0, 0)"

section \<open>Segment geometry\<close>

text \<open>
  \<^verbatim>\<open>closest_segment_point\<close> (utilities.h, lines 619 to 631), at \<open>dim = 3\<close> and at
  \<open>dim = 2\<close>. For a segment of length zero the quotient is \<^verbatim>\<open>0.0 / 0.0\<close>;
  \<^verbatim>\<open>std::min(1.0, t)\<close> is \<^verbatim>\<open>(t < 1.0) ? t : 1.0\<close>, which is \<open>1\<close> for a NaN, and
  \<^verbatim>\<open>std::max(0.0, 1.0)\<close> is \<open>1\<close>.
\<close>

definition closest_segment_point :: "point3 \<Rightarrow> point3 \<Rightarrow> point3 \<Rightarrow> point3" where
  "closest_segment_point p segment_p0 segment_p1 =
     (let d = sub3 segment_p1 segment_p0;
          t = (if norm_square3 d = 0 then 1
               else max 0 (min 1 (dot3 d (sub3 p segment_p0) / norm_square3 d)))
      in add3 segment_p0 (scale3 t d))"

definition closest_segment_point2 :: "point2 \<Rightarrow> point2 \<Rightarrow> point2 \<Rightarrow> point2" where
  "closest_segment_point2 p segment_p0 segment_p1 =
     (let d = sub2 segment_p1 segment_p0;
          t = (if norm_square2 d = 0 then 1
               else max 0 (min 1 (dot2 d (sub2 p segment_p0) / norm_square2 d)))
      in add2 segment_p0 (scale2 t d))"

text \<open>
  \<^verbatim>\<open>barycentric_coordinates\<close> of a segment (lines 633 to 644), used at \<open>dim = 2\<close>.
  The parameter is not clamped. On a segment of length zero both weights are NaN.
\<close>

definition barycentric_coordinates2 :: "point2 \<Rightarrow> point2 \<Rightarrow> point2 \<Rightarrow> (real \<times> real) option" where
  "barycentric_coordinates2 p segment_p0 segment_p1 =
     (let d = sub2 segment_p1 segment_p0
      in if norm_square2 d = 0 then None
         else (let t = dot2 d (sub2 p segment_p0) / norm_square2 d in Some (1 - t, t)))"

section \<open>Triangle\<close>

record Triangle =
  m_points :: "point3 \<times> point3 \<times> point3"
  m_normal :: point3
  m_center :: point3
  m_area :: real
  m_longest_side :: real

text \<open>\<^verbatim>\<open>m_points[i]\<close> for \<open>i\<close> in \<open>0, 1, 2\<close>.\<close>

fun vertex :: "point3 \<times> point3 \<times> point3 \<Rightarrow> nat \<Rightarrow> point3" where
  "vertex (a, b, c) i = (if i = 0 then a else if i = 1 then b else c)"

definition calculate_normal_and_area :: "point3 \<times> point3 \<times> point3 \<Rightarrow> point3 \<times> real" where
  "calculate_normal_and_area ps =
     (let normal = cross_product_3d (sub3 (vertex ps 1) (vertex ps 0)) (sub3 (vertex ps 2) (vertex ps 0));
          area = 0.5 * norm3 normal
      in (if area > 0 then div3 normal (2 * area) else normal, area))"

definition reinit :: "point3 \<Rightarrow> point3 \<Rightarrow> point3 \<Rightarrow> Triangle" where
  "reinit p0 p1 p2 =
     (let na = calculate_normal_and_area (p0, p1, p2)
      in \<lparr> m_points = (p0, p1, p2),
           m_normal = fst na,
           m_center = div3 (add3 (add3 p0 p1) p2) 3,
           m_area = snd na,
           m_longest_side =
             max (max (norm3 (sub3 p1 p0)) (norm3 (sub3 p2 p0))) (norm3 (sub3 p1 p2)) \<rparr>)"

definition signed_area :: "Triangle \<Rightarrow> point3 \<Rightarrow> point3 \<Rightarrow> point3 \<Rightarrow> real" where
  "signed_area tr p0 p1 p2 = 0.5 * dot3 (m_normal tr) (cross_product_3d (sub3 p1 p0) (sub3 p2 p0))"

definition project_to_triangle_plane :: "Triangle \<Rightarrow> point3 \<Rightarrow> point3" where
  "project_to_triangle_plane tr p =
     sub3 p (scale3 (dot3 (m_normal tr) (sub3 p (vertex (m_points tr) 0))) (m_normal tr))"

text \<open>
  \<^verbatim>\<open>Triangle::barycentric_coordinates\<close> (lines 763 to 771) divides three signed areas
  by \<^verbatim>\<open>m_area\<close>. With \<^verbatim>\<open>m_area == 0\<close> each quotient is a NaN or an infinity, and the
  result is \<^term>\<open>None\<close>.
\<close>

definition barycentric_coordinates :: "Triangle \<Rightarrow> point3 \<Rightarrow> (real \<times> real \<times> real) option" where
  "barycentric_coordinates tr p =
     (if m_area tr = 0 then None
      else Some (signed_area tr p (vertex (m_points tr) 1) (vertex (m_points tr) 2) / m_area tr,
                 signed_area tr (vertex (m_points tr) 0) p (vertex (m_points tr) 2) / m_area tr,
                 signed_area tr (vertex (m_points tr) 0) (vertex (m_points tr) 1) p / m_area tr))"

text \<open>
  \<^verbatim>\<open>Triangle::closest_triangle_point\<close> (lines 694 to 731). The test
  \<^verbatim>\<open>(t >= 0) && (t <= 1)\<close> is false for a NaN and for an infinity, so a triangle of
  area zero is never \<^verbatim>\<open>inside\<close>. The edge loop starts from \<^verbatim>\<open>d2_min = -1\<close>.
\<close>

definition edge_step :: "Triangle \<Rightarrow> point3 \<Rightarrow> nat \<Rightarrow> point3 \<times> real \<Rightarrow> point3 \<times> real" where
  "edge_step tr p i s =
     (let p_edge = closest_segment_point p (vertex (m_points tr) i) (vertex (m_points tr) ((i + 1) mod 3));
          d2 = norm_square3 (sub3 p p_edge)
      in if d2 < snd s \<or> snd s < 0 then (p_edge, d2) else s)"

definition closest_triangle_point :: "Triangle \<Rightarrow> point3 \<Rightarrow> point3" where
  "closest_triangle_point tr p =
     (let p_proj = project_to_triangle_plane tr p;
          inside = (case barycentric_coordinates tr p_proj of
                      None \<Rightarrow> False
                    | Some (t0, t1, t2) \<Rightarrow>
                        (0 \<le> t0 \<and> t0 \<le> 1) \<and> (0 \<le> t1 \<and> t1 \<le> 1) \<and> (0 \<le> t2 \<and> t2 \<le> 1))
      in if inside then p_proj
         else fst (fold (edge_step tr p) [0, 1, 2] (origin3, -1)))"

section \<open>Errors and loops\<close>

text \<open>
  The exceptions the interpolators throw: the \<^verbatim>\<open>std::runtime_error\<close> of a missing
  field (\<^verbatim>\<open>Field '...' does not exist.\<close>), of a cell that is not a triangle and of an
  unsupported conversion, and \<^verbatim>\<open>ExcInterpolationFailed\<close> with its point. An access
  past the end of a \<^verbatim>\<open>std::vector\<close> and the use of a variable that was never set are
  undefined behaviour in C++; the model stops there with \<^term>\<open>OutOfBounds\<close> or
  \<^term>\<open>Uninitialised\<close>. The exceptions that library functions throw into \<^verbatim>\<open>read_vtu\<close> are
  \<^term>\<open>ConversionError\<close> (a string that is not a number, from \<^verbatim>\<open>std::stod\<close>, \<^verbatim>\<open>std::stoul\<close>
  and \<^verbatim>\<open>Utilities::string_to_int\<close>) and \<^term>\<open>LengthError\<close> (\<^verbatim>\<open>std::length_error\<close> of a
  \<^verbatim>\<open>resize\<close> to a negative size).

  A member function that changes its object, or writes to a reference parameter,
  returns the exception (if any) together with the state it leaves behind; a function
  that only computes a value returns \<open>error + value\<close>.
\<close>

datatype error =
    FieldNotFound string
  | InterpolationFailed point3
  | FormatError string
  | UnsupportedConversion
  | OutOfBounds
  | Uninitialised
  | ConversionError string
  | LengthError

text \<open>
  A \<^verbatim>\<open>for\<close> loop over the indices (or the elements) \<open>is\<close>; an exception leaves the
  loop with the state as it is.
\<close>

fun for_loop :: "'a list \<Rightarrow> ('a \<Rightarrow> 's \<Rightarrow> error option \<times> 's) \<Rightarrow> 's \<Rightarrow> error option \<times> 's" where
  "for_loop [] body s = (None, s)"
| "for_loop (i # is) body s =
     (case body i s of (Some e, s') \<Rightarrow> (Some e, s') | (None, s') \<Rightarrow> for_loop is body s')"

text \<open>\<^verbatim>\<open>std::vector::resize(n)\<close>: keeps the first \<open>n\<close> elements, pads with the default.\<close>

definition resize :: "nat \<Rightarrow> 'a \<Rightarrow> 'a list \<Rightarrow> 'a list" where
  "resize n d xs = take n xs @ replicate (n - length xs) d"

text \<open>
  On a \<^verbatim>\<open>std::map\<close> from names to vectors: \<^verbatim>\<open>m[name]\<close>, which inserts an empty vector
  under an absent name; \<^verbatim>\<open>m[name].resize(n)\<close>; and \<^verbatim>\<open>f[i] = x\<close> through a reference
  \<^verbatim>\<open>f\<close> to the entry.
\<close>

definition subscript :: "(string \<rightharpoonup> 'a list) \<Rightarrow> string \<Rightarrow> (string \<rightharpoonup> 'a list)" where
  "subscript fmap field_name =
     (case fmap field_name of None \<Rightarrow> fmap(field_name \<mapsto> []) | Some f \<Rightarrow> fmap)"

definition resize_field :: "(string \<rightharpoonup> 'a list) \<Rightarrow> string \<Rightarrow> nat \<Rightarrow> 'a \<Rightarrow> (string \<rightharpoonup> 'a list)" where
  "resize_field fmap field_name n d =
     fmap(field_name \<mapsto> resize n d (case fmap field_name of None \<Rightarrow> [] | Some f \<Rightarrow> f))"

definition assign :: "(string \<rightharpoonup> 'a list) \<Rightarrow> string \<Rightarrow> nat \<Rightarrow> 'a \<Rightarrow> (string \<rightharpoonup> 'a list)" where
  "assign fmap field_name i x =
     (case fmap field_name of None \<Rightarrow> fmap | Some f \<Rightarrow> fmap(field_name \<mapsto> f[i := x]))"

section \<open>SurfaceInterpolator3D\<close>

datatype FieldType = CellField | PointField

record SurfaceInterpolator3D =
  points :: "point3 list"
  triangles :: "(nat \<times> nat \<times> nat) list"
  cell_fields :: "string \<rightharpoonup> real list"
  point_fields :: "string \<rightharpoonup> real list"
  cell_vector_fields :: "string \<rightharpoonup> point3 list"
  triangle_cache :: "Triangle list"

text \<open>\<^verbatim>\<open>SurfaceInterpolator3D::clear\<close> (lines 1360 to 1369).\<close>

definition clear :: "SurfaceInterpolator3D \<Rightarrow> SurfaceInterpolator3D" where
  "clear st = st\<lparr> points := [], triangles := [], cell_fields := Map.empty,
                  point_fields := Map.empty, cell_vector_fields := Map.empty,
                  triangle_cache := [] \<rparr>"

text \<open>
  The two overloads of \<^verbatim>\<open>SurfaceInterpolator3D::field\<close> (lines 1249 to 1268). The
  \<^verbatim>\<open>const\<close> one throws when the name is absent. The other one is
  \<^verbatim>\<open>cell_fields[field_name]\<close> or \<^verbatim>\<open>point_fields[field_name]\<close>, and inserts. C++ calls
  the \<^verbatim>\<open>const\<close> overload only on a \<^verbatim>\<open>const\<close> object: from \<^verbatim>\<open>interpolate\<close>, a \<^verbatim>\<open>const\<close>
  member function. In \<^verbatim>\<open>cell_to_point\<close> and \<^verbatim>\<open>point_to_cell\<close>, which are not \<^verbatim>\<open>const\<close>,
  both calls of \<^verbatim>\<open>field\<close> are calls of the second overload, also the one whose result is
  bound to a \<^verbatim>\<open>const\<close> reference.
\<close>

definition field :: "SurfaceInterpolator3D \<Rightarrow> FieldType \<Rightarrow> string \<Rightarrow> error + real list" where
  "field st field_type field_name =
     (let fmap = (if field_type = CellField then cell_fields st else point_fields st)
      in case fmap field_name of
           None \<Rightarrow> Inl (FieldNotFound field_name)
         | Some f \<Rightarrow> Inr f)"

definition field_mut :: "SurfaceInterpolator3D \<Rightarrow> FieldType \<Rightarrow> string \<Rightarrow> SurfaceInterpolator3D" where
  "field_mut st field_type field_name =
     (if field_type = CellField
      then st\<lparr> cell_fields := subscript (cell_fields st) field_name \<rparr>
      else st\<lparr> point_fields := subscript (point_fields st) field_name \<rparr>)"

subsection \<open>preprocess\<close>

text \<open>
  \<^verbatim>\<open>SurfaceInterpolator3D::preprocess\<close> (lines 1384 to 1418): one \<^verbatim>\<open>reinit\<close> per
  triangle, and the four derived fields. A value-initialised \<^verbatim>\<open>Triangle\<close> is all zero.
\<close>

definition zero_triangle :: Triangle where
  "zero_triangle = \<lparr> m_points = (origin3, origin3, origin3), m_normal = origin3,
                      m_center = origin3, m_area = 0, m_longest_side = 0 \<rparr>"

definition preprocess_step ::
  "nat \<Rightarrow> SurfaceInterpolator3D \<Rightarrow> error option \<times> SurfaceInterpolator3D" where
  "preprocess_step i st =
     (case triangles st ! i of (v0, v1, v2) \<Rightarrow>
        if v0 < length (points st) \<and> v1 < length (points st) \<and> v2 < length (points st)
        then (let triangle = reinit (points st ! v0) (points st ! v1) (points st ! v2)
              in (None,
                  st\<lparr> triangle_cache := (triangle_cache st)[i := triangle],
                      cell_vector_fields :=
                        assign (assign (cell_vector_fields st) ''center'' i (m_center triangle))
                          ''normal'' i (m_normal triangle),
                      cell_fields :=
                        assign (assign (cell_fields st) ''area'' i (m_area triangle))
                          ''longest_side'' i (m_longest_side triangle) \<rparr>))
        else (Some OutOfBounds, st))"

definition preprocess :: "SurfaceInterpolator3D \<Rightarrow> error option \<times> SurfaceInterpolator3D" where
  "preprocess st =
     (let n_triangles = length (triangles st)
      in for_loop [0..<n_triangles] preprocess_step
           (st\<lparr> cell_fields :=
                   resize_field (resize_field (cell_fields st) ''area'' n_triangles 0)
                     ''longest_side'' n_triangles 0,
                 cell_vector_fields :=
                   resize_field (resize_field (cell_vector_fields st) ''center'' n_triangles origin3)
                     ''normal'' n_triangles origin3,
                 triangle_cache := resize n_triangles zero_triangle (triangle_cache st) \<rparr>))"

subsection \<open>interpolate\<close>

text \<open>
  \<^verbatim>\<open>SurfaceInterpolator3D::interpolate\<close> (lines 1108 to 1200). The state of the search
  for one target point is \<^verbatim>\<open>p_found\<close>, \<^verbatim>\<open>j_found\<close> and \<^verbatim>\<open>d2_min\<close>, which starts at \<open>-1\<close>
  (the same three variables in 3D and in 2D, so one record for both).
  The first loop skips a triangle whose centre is farther from the point than three
  times its longest side; the second loop, entered when the first found nothing, does not.
\<close>

record 'p found =
  p_found :: 'p
  j_found :: nat
  d2_min :: real

definition search_step ::
  "bool \<Rightarrow> Triangle list \<Rightarrow> point3 \<Rightarrow> nat \<Rightarrow> point3 found \<Rightarrow> error option \<times> point3 found" where
  "search_step pruning cache p j s =
     (if length cache \<le> j then (Some OutOfBounds, s)
      else (let triangle = cache ! j
            in if pruning \<and> norm3 (sub3 p (m_center triangle)) > 3 * m_longest_side triangle
               then (None, s)
               else (let p_trial = closest_triangle_point triangle p;
                         d2 = norm_square3 (sub3 p_trial p)
                     in if d2 < d2_min s \<or> d2_min s < 0
                        then (None, \<lparr> p_found = p_trial, j_found = j, d2_min = d2 \<rparr>)
                        else (None, s))))"

definition locate :: "Triangle list \<Rightarrow> nat \<Rightarrow> point3 \<Rightarrow> error + point3 found" where
  "locate cache n_triangles p =
     (case for_loop [0..<n_triangles] (search_step True cache p)
             \<lparr> p_found = origin3, j_found = 0, d2_min = -1 \<rparr> of
        (Some e, s) \<Rightarrow> Inl e
      | (None, s) \<Rightarrow>
          (case (if d2_min s < 0
                 then for_loop [0..<n_triangles] (search_step False cache p) s
                 else (None, s)) of
             (Some e, s') \<Rightarrow> Inl e
           | (None, s') \<Rightarrow> if d2_min s' \<ge> 0 then Inr s' else Inl (InterpolationFailed p)))"

text \<open>
  The \<^verbatim>\<open>switch\<close> on the field type (lines 1183 to 1196). An entry of
  \<^verbatim>\<open>target_values\<close> is \<^term>\<open>Some x\<close> for the number \<open>x\<close> and \<^term>\<open>None\<close> for a value that
  is not a finite number.
\<close>

definition reconstruct ::
  "SurfaceInterpolator3D \<Rightarrow> FieldType \<Rightarrow> real list \<Rightarrow> point3 found \<Rightarrow> real option \<Rightarrow>
   error + real option" where
  "reconstruct st field_type source_field s old =
     (case field_type of
        CellField \<Rightarrow>
          if j_found s < length source_field then Inr (Some (source_field ! j_found s))
          else Inl OutOfBounds
      | PointField \<Rightarrow>
          if j_found s < length (triangle_cache st) \<and> j_found s < length (triangles st)
          then (case triangles st ! j_found s of (v0, v1, v2) \<Rightarrow>
                  if v0 < length source_field \<and> v1 < length source_field \<and> v2 < length source_field
                  then (case barycentric_coordinates (triangle_cache st ! j_found s) (p_found s) of
                          None \<Rightarrow> Inr None
                        | Some (t0, t1, t2) \<Rightarrow>
                            Inr (map_option
                                   (\<lambda>x. x + t0 * source_field ! v0 + t1 * source_field ! v1
                                           + t2 * source_field ! v2) old))
                  else Inl OutOfBounds)
          else Inl OutOfBounds)"

definition interpolate_step ::
  "SurfaceInterpolator3D \<Rightarrow> FieldType \<Rightarrow> real list \<Rightarrow> point3 list \<Rightarrow> bool list \<Rightarrow> nat \<Rightarrow>
   real option list \<Rightarrow> error option \<times> real option list" where
  "interpolate_step st field_type source_field target_points markers i target_values =
     (if length markers \<le> i then (Some OutOfBounds, target_values)
      else if \<not> markers ! i then (None, target_values)
      else (case locate (triangle_cache st) (length (triangles st)) (target_points ! i) of
              Inl e \<Rightarrow> (Some e, target_values)
            | Inr s \<Rightarrow>
                (case reconstruct st field_type source_field s (target_values ! i) of
                   Inl e \<Rightarrow> (Some e, target_values)
                 | Inr v \<Rightarrow> (None, target_values[i := v]))))"

text \<open>
  \<^verbatim>\<open>target_values\<close> is a reference parameter: a call that throws before
  \<^verbatim>\<open>target_values.reinit(n_values)\<close> leaves it as it was.
\<close>

definition interpolate ::
  "SurfaceInterpolator3D \<Rightarrow> FieldType \<Rightarrow> string \<Rightarrow> point3 list \<Rightarrow> bool list \<Rightarrow>
   real option list \<Rightarrow> error option \<times> real option list" where
  "interpolate st field_type field_name target_points markers target_values =
     (case field st field_type field_name of
        Inl e \<Rightarrow> (Some e, target_values)
      | Inr source_field \<Rightarrow>
          (let n_values = length target_points
           in for_loop [0..<n_values]
                (interpolate_step st field_type source_field target_points markers)
                (replicate n_values (Some 0))))"

text \<open>The overload for target points in 2D (lines 1202 to 1223): \<open>(r, z)\<close> becomes \<open>(r, 0, z)\<close>.\<close>

definition interpolate_rz ::
  "SurfaceInterpolator3D \<Rightarrow> FieldType \<Rightarrow> string \<Rightarrow> point2 list \<Rightarrow> bool list \<Rightarrow>
   real option list \<Rightarrow> error option \<times> real option list" where
  "interpolate_rz st field_type field_name target_points markers target_values =
     interpolate st field_type field_name (map (\<lambda>(r, z). (r, 0, z)) target_points) markers
       target_values"

subsection \<open>convert\<close>

text \<open>
  \<^verbatim>\<open>cell_to_point\<close> (lines 1285 to 1321) and \<^verbatim>\<open>point_to_cell\<close> (lines 1323 to 1358).
  The source field is an entry of one map and the target field an entry of the other,
  so the two references never alias. The loops work on the target vector and on
  \<^verbatim>\<open>count\<close>.
\<close>

definition add_at :: "real \<Rightarrow> nat \<Rightarrow> real list \<times> nat list \<Rightarrow> error option \<times> real list \<times> nat list" where
  "add_at x k tc =
     (if k < length (fst tc) \<and> k < length (snd tc)
      then (None, (fst tc)[k := fst tc ! k + x], (snd tc)[k := snd tc ! k + 1])
      else (Some OutOfBounds, tc))"

definition cell_to_point_step ::
  "(nat \<times> nat \<times> nat) list \<Rightarrow> real list \<Rightarrow> nat \<Rightarrow> real list \<times> nat list \<Rightarrow>
   error option \<times> real list \<times> nat list" where
  "cell_to_point_step tris source_field i tc =
     (case tris ! i of (v0, v1, v2) \<Rightarrow>
        if i < length source_field
        then for_loop [v0, v1, v2] (add_at (source_field ! i)) tc
        else (Some OutOfBounds, tc))"

definition point_to_cell_step ::
  "(nat \<times> nat \<times> nat) list \<Rightarrow> real list \<Rightarrow> nat \<Rightarrow> real list \<times> nat list \<Rightarrow>
   error option \<times> real list \<times> nat list" where
  "point_to_cell_step tris source_field i tc =
     (case tris ! i of (v0, v1, v2) \<Rightarrow>
        for_loop [v0, v1, v2]
          (\<lambda>id tc. if id < length source_field then add_at (source_field ! id) i tc
                    else (Some OutOfBounds, tc)) tc)"

definition divide_step :: "nat list \<Rightarrow> nat \<Rightarrow> real list \<Rightarrow> real list" where
  "divide_step count i target_field =
     (if count ! i > 0 then target_field[i := target_field ! i / real (count ! i)]
      else target_field)"

definition cell_to_point ::
  "SurfaceInterpolator3D \<Rightarrow> string \<Rightarrow> string \<Rightarrow> error option \<times> SurfaceInterpolator3D" where
  "cell_to_point st source_name target_name =
     (let n_points = length (points st);
          n_triangles = length (triangles st);
          st1 = field_mut st CellField source_name;
          source_field = (case cell_fields st1 source_name of None \<Rightarrow> [] | Some f \<Rightarrow> f);
          st2 = field_mut st1 PointField target_name
      in case for_loop [0..<n_triangles] (cell_to_point_step (triangles st) source_field)
                (replicate n_points 0, replicate n_points 0) of
           (e, target_field, count) \<Rightarrow>
             (e, st2\<lparr> point_fields := (point_fields st2)(target_name \<mapsto>
                        (if e = None then fold (divide_step count) [0..<n_points] target_field
                         else target_field)) \<rparr>))"

definition point_to_cell ::
  "SurfaceInterpolator3D \<Rightarrow> string \<Rightarrow> string \<Rightarrow> error option \<times> SurfaceInterpolator3D" where
  "point_to_cell st source_name target_name =
     (let n_triangles = length (triangles st);
          st1 = field_mut st PointField source_name;
          source_field = (case point_fields st1 source_name of None \<Rightarrow> [] | Some f \<Rightarrow> f);
          st2 = field_mut st1 CellField target_name
      in case for_loop [0..<n_triangles] (point_to_cell_step (triangles st) source_field)
                (replicate n_triangles 0, replicate n_triangles 0) of
           (e, target_field, count) \<Rightarrow>
             (e, st2\<lparr> cell_fields := (cell_fields st2)(target_name \<mapsto>
                        (if e = None then fold (divide_step count) [0..<n_triangles] target_field
                         else target_field)) \<rparr>))"

text \<open>\<^verbatim>\<open>SurfaceInterpolator3D::convert\<close> (lines 1225 to 1247).\<close>

definition convert ::
  "SurfaceInterpolator3D \<Rightarrow> FieldType \<Rightarrow> string \<Rightarrow> FieldType \<Rightarrow> string \<Rightarrow>
   error option \<times> SurfaceInterpolator3D" where
  "convert st source_type source_name target_type target_name =
     (let target_name_updated = (if target_name = [] then source_name else target_name)
      in if source_type = CellField \<and> target_type = PointField
         then cell_to_point st source_name target_name_updated
         else if source_type = PointField \<and> target_type = CellField
         then point_to_cell st source_name target_name_updated
         else (Some UnsupportedConversion, st))"

subsection \<open>convert in the arithmetic of double\<close>

text \<open>
  The arithmetic of \<^verbatim>\<open>double\<close>. The result of \<^verbatim>\<open>+\<close> and of \<^verbatim>\<open>/\<close> on two doubles is the exact
  result rounded to the nearest number with a significand of 53 bits, a tie going to the
  even significand (IEEE 754 binary64 in the default rounding mode; the range of the
  exponent is not modelled, so no overflow and no subnormal number).
\<close>

definition round_half_even :: "real \<Rightarrow> int" where
  "round_half_even y =
     (let f = \<lfloor>y\<rfloor>
      in if y - of_int f < 1 / 2 then f
         else if y - of_int f > 1 / 2 then f + 1
         else if even f then f else f + 1)"

definition round_to_double :: "real \<Rightarrow> real" where
  "round_to_double x =
     (if x = 0 then 0
      else (let e = \<lfloor>log 2 \<bar>x\<bar>\<rfloor> - 52
            in of_int (round_half_even (x / 2 powr of_int e)) * 2 powr of_int e))"

text \<open>
  \<^verbatim>\<open>cell_to_point\<close>, \<^verbatim>\<open>point_to_cell\<close> and \<^verbatim>\<open>convert\<close> once more, with the rounding \<open>rnd\<close> of
  each \<^verbatim>\<open>+=\<close> and \<^verbatim>\<open>/=\<close> on a \<^verbatim>\<open>double\<close> written out. The conversion of \<^verbatim>\<open>count[i]\<close> to
  \<^verbatim>\<open>double\<close> is exact. With the identity for \<open>rnd\<close> these are the definitions above.
\<close>

definition add_at_rounded ::
  "(real \<Rightarrow> real) \<Rightarrow> real \<Rightarrow> nat \<Rightarrow> real list \<times> nat list \<Rightarrow> error option \<times> real list \<times> nat list" where
  "add_at_rounded rnd x k tc =
     (if k < length (fst tc) \<and> k < length (snd tc)
      then (None, (fst tc)[k := rnd (fst tc ! k + x)], (snd tc)[k := snd tc ! k + 1])
      else (Some OutOfBounds, tc))"

definition cell_to_point_step_rounded ::
  "(real \<Rightarrow> real) \<Rightarrow> (nat \<times> nat \<times> nat) list \<Rightarrow> real list \<Rightarrow> nat \<Rightarrow> real list \<times> nat list \<Rightarrow>
   error option \<times> real list \<times> nat list" where
  "cell_to_point_step_rounded rnd tris source_field i tc =
     (case tris ! i of (v0, v1, v2) \<Rightarrow>
        if i < length source_field
        then for_loop [v0, v1, v2] (add_at_rounded rnd (source_field ! i)) tc
        else (Some OutOfBounds, tc))"

definition point_to_cell_step_rounded ::
  "(real \<Rightarrow> real) \<Rightarrow> (nat \<times> nat \<times> nat) list \<Rightarrow> real list \<Rightarrow> nat \<Rightarrow> real list \<times> nat list \<Rightarrow>
   error option \<times> real list \<times> nat list" where
  "point_to_cell_step_rounded rnd tris source_field i tc =
     (case tris ! i of (v0, v1, v2) \<Rightarrow>
        for_loop [v0, v1, v2]
          (\<lambda>id tc. if id < length source_field then add_at_rounded rnd (source_field ! id) i tc
                    else (Some OutOfBounds, tc)) tc)"

definition divide_step_rounded :: "(real \<Rightarrow> real) \<Rightarrow> nat list \<Rightarrow> nat \<Rightarrow> real list \<Rightarrow> real list" where
  "divide_step_rounded rnd count i target_field =
     (if count ! i > 0 then target_field[i := rnd (target_field ! i / real (count ! i))]
      else target_field)"

definition cell_to_point_rounded ::
  "(real \<Rightarrow> real) \<Rightarrow> SurfaceInterpolator3D \<Rightarrow> string \<Rightarrow> string \<Rightarrow>
   error option \<times> SurfaceInterpolator3D" where
  "cell_to_point_rounded rnd st source_name target_name =
     (let n_points = length (points st);
          n_triangles = length (triangles st);
          st1 = field_mut st CellField source_name;
          source_field = (case cell_fields st1 source_name of None \<Rightarrow> [] | Some f \<Rightarrow> f);
          st2 = field_mut st1 PointField target_name
      in case for_loop [0..<n_triangles] (cell_to_point_step_rounded rnd (triangles st) source_field)
                (replicate n_points 0, replicate n_points 0) of
           (e, target_field, count) \<Rightarrow>
             (e, st2\<lparr> point_fields := (point_fields st2)(target_name \<mapsto>
                        (if e = None
                         then fold (divide_step_rounded rnd count) [0..<n_points] target_field
                         else target_field)) \<rparr>))"

definition point_to_cell_rounded ::
  "(real \<Rightarrow> real) \<Rightarrow> SurfaceInterpolator3D \<Rightarrow> string \<Rightarrow> string \<Rightarrow>
   error option \<times> SurfaceInterpolator3D" where
  "point_to_cell_rounded rnd st source_name target_name =
     (let n_triangles = length (triangles st);
          st1 = field_mut st PointField source_name;
          source_field = (case point_fields st1 source_name of None \<Rightarrow> [] | Some f \<Rightarrow> f);
          st2 = field_mut st1 CellField target_name
      in case for_loop [0..<n_triangles] (point_to_cell_step_rounded rnd (triangles st) source_field)
                (replicate n_triangles 0, replicate n_triangles 0) of
           (e, target_field, count) \<Rightarrow>
             (e, st2\<lparr> cell_fields := (cell_fields st2)(target_name \<mapsto>
                        (if e = None
                         then fold (divide_step_rounded rnd count) [0..<n_triangles] target_field
                         else target_field)) \<rparr>))"

definition convert_rounded ::
  "(real \<Rightarrow> real) \<Rightarrow> SurfaceInterpolator3D \<Rightarrow> FieldType \<Rightarrow> string \<Rightarrow> FieldType \<Rightarrow> string \<Rightarrow>
   error option \<times> SurfaceInterpolator3D" where
  "convert_rounded rnd st source_type source_name target_type target_name =
     (let target_name_updated = (if target_name = [] then source_name else target_name)
      in if source_type = CellField \<and> target_type = PointField
         then cell_to_point_rounded rnd st source_name target_name_updated
         else if source_type = PointField \<and> target_type = CellField
         then point_to_cell_rounded rnd st source_name target_name_updated
         else (Some UnsupportedConversion, st))"

subsection \<open>read_vtk\<close>

text \<open>
  \<^verbatim>\<open>SurfaceInterpolator3D::read_vtk\<close> (lines 775 to 874) reads the file word by word with
  \<^verbatim>\<open>file >> s\<close>. The file is its list of whitespace-separated words, or \<^term>\<open>None\<close> when
  it cannot be opened. The extraction operators belong to the C++ standard library; the
  model keeps their contract (C++11) on whole words: an extraction from a stream that has
  failed, or that is at its end, leaves the variable as it was and the stream failed; a
  word that does not parse as a number stores zero and fails the stream. What parses as
  a number is a parameter of the model (\<open>parse_unsigned\<close>, \<open>parse_double\<close>).
  An \<^verbatim>\<open>unsigned int n\<close> that the extraction leaves unset is \<^term>\<open>None\<close>.
\<close>

record stream =
  tokens :: "string list"
  good :: bool

definition extract_string :: "stream \<Rightarrow> string \<Rightarrow> string \<times> stream" where
  "extract_string f old =
     (if good f
      then (case tokens f of
              [] \<Rightarrow> (old, f\<lparr> good := False \<rparr>)
            | t # ts \<Rightarrow> (t, f\<lparr> tokens := ts \<rparr>))
      else (old, f))"

definition extract_value :: "(string \<Rightarrow> 'a option) \<Rightarrow> 'a \<Rightarrow> stream \<Rightarrow> 'a \<Rightarrow> 'a \<times> stream" where
  "extract_value parse zero f old =
     (if good f
      then (case tokens f of
              [] \<Rightarrow> (old, f\<lparr> good := False \<rparr>)
            | t # ts \<Rightarrow>
                (case parse t of
                   None \<Rightarrow> (zero, f\<lparr> good := False \<rparr>)
                 | Some v \<Rightarrow> (v, f\<lparr> tokens := ts \<rparr>)))
      else (old, f))"

definition extract_count :: "(string \<Rightarrow> nat option) \<Rightarrow> stream \<Rightarrow> nat option \<times> stream" where
  "extract_count parse f = extract_value (\<lambda>t. map_option Some (parse t)) (Some 0) f None"

record reader =
  input :: stream
  s_tok :: string
  data_type :: string
  data_name :: string
  surf :: SurfaceInterpolator3D

definition read_point :: "(string \<Rightarrow> real option) \<Rightarrow> nat \<Rightarrow> reader \<Rightarrow> error option \<times> reader" where
  "read_point parse_double i r =
     (case points (surf r) ! i of (x0, y0, z0) \<Rightarrow>
        (case extract_value parse_double 0 (input r) x0 of (x, f1) \<Rightarrow>
           (case extract_value parse_double 0 f1 y0 of (y, f2) \<Rightarrow>
              (case extract_value parse_double 0 f2 z0 of (z, f3) \<Rightarrow>
                 (None, r\<lparr> input := f3,
                            surf := (surf r)\<lparr> points := (points (surf r))[i := (x, y, z)] \<rparr> \<rparr>)))))"

definition read_POINTS ::
  "(string \<Rightarrow> nat option) \<Rightarrow> (string \<Rightarrow> real option) \<Rightarrow> reader \<Rightarrow> error option \<times> reader" where
  "read_POINTS parse_unsigned parse_double r =
     (case extract_count parse_unsigned (input r) of (n, f1) \<Rightarrow>
        (case extract_string f1 (s_tok r) of (s1, f2) \<Rightarrow>
           (case n of
              None \<Rightarrow> (Some Uninitialised, r\<lparr> input := f2, s_tok := s1 \<rparr>)
            | Some n \<Rightarrow>
                for_loop [0..<n] (read_point parse_double)
                  (r\<lparr> input := f2, s_tok := s1,
                      surf := (surf r)\<lparr> points := resize n origin3 (points (surf r)) \<rparr> \<rparr>))))"

definition read_cell :: "(string \<Rightarrow> nat option) \<Rightarrow> nat \<Rightarrow> reader \<Rightarrow> error option \<times> reader" where
  "read_cell parse_unsigned i r =
     (case extract_string (input r) (s_tok r) of (s1, f1) \<Rightarrow>
        if s1 \<noteq> ''3''
        then (Some (FormatError (''Triangle expected, numPoints='' @ s1 @ ''found'')),
              r\<lparr> input := f1, s_tok := s1 \<rparr>)
        else (case triangles (surf r) ! i of (a0, b0, c0) \<Rightarrow>
                (case extract_value parse_unsigned 0 f1 a0 of (a, f2) \<Rightarrow>
                   (case extract_value parse_unsigned 0 f2 b0 of (b, f3) \<Rightarrow>
                      (case extract_value parse_unsigned 0 f3 c0 of (c, f4) \<Rightarrow>
                         (None, r\<lparr> input := f4, s_tok := s1,
                                    surf := (surf r)\<lparr> triangles := (triangles (surf r))[i := (a, b, c)] \<rparr> \<rparr>))))))"

definition read_CELLS :: "(string \<Rightarrow> nat option) \<Rightarrow> reader \<Rightarrow> error option \<times> reader" where
  "read_CELLS parse_unsigned r =
     (case extract_count parse_unsigned (input r) of (n, f1) \<Rightarrow>
        (case extract_string f1 (s_tok r) of (s1, f2) \<Rightarrow>
           (case n of
              None \<Rightarrow> (Some Uninitialised, r\<lparr> input := f2, s_tok := s1 \<rparr>)
            | Some n \<Rightarrow>
                for_loop [0..<n] (read_cell parse_unsigned)
                  (r\<lparr> input := f2, s_tok := s1,
                      surf := (surf r)\<lparr> triangles := resize n (0, 0, 0) (triangles (surf r)) \<rparr> \<rparr>))))"

definition read_value :: "(string \<Rightarrow> real option) \<Rightarrow> bool \<Rightarrow> string \<Rightarrow> nat \<Rightarrow> reader \<Rightarrow> error option \<times> reader" where
  "read_value parse_double cell name i r =
     (let fmap = (if cell then cell_fields (surf r) else point_fields (surf r));
          old = (case fmap name of None \<Rightarrow> 0 | Some f \<Rightarrow> f ! i)
      in case extract_value parse_double 0 (input r) old of (x, f1) \<Rightarrow>
           (None, r\<lparr> input := f1,
                      surf := (if cell then (surf r)\<lparr> cell_fields := assign fmap name i x \<rparr>
                               else (surf r)\<lparr> point_fields := assign fmap name i x \<rparr>) \<rparr>))"

definition read_array :: "(string \<Rightarrow> real option) \<Rightarrow> reader \<Rightarrow> error option \<times> reader" where
  "read_array parse_double r =
     (case extract_string (input r) (data_name r) of (name, f1) \<Rightarrow>
        (case extract_string f1 (s_tok r) of (s1, f2) \<Rightarrow>
           (case extract_string f2 s1 of (s2, f3) \<Rightarrow>
              (case extract_string f3 s2 of (s3, f4) \<Rightarrow>
                 (let cell = (data_type r = ''CELL_DATA'');
                      N = (if cell then length (triangles (surf r)) else length (points (surf r)));
                      st = (if cell
                            then (surf r)\<lparr> cell_fields := resize_field (cell_fields (surf r)) name N 0 \<rparr>
                            else (surf r)\<lparr> point_fields := resize_field (point_fields (surf r)) name N 0 \<rparr>)
                  in for_loop [0..<N] (read_value parse_double cell name)
                       (r\<lparr> input := f4, s_tok := s3, data_name := name, surf := st \<rparr>))))))"

definition read_FIELD ::
  "(string \<Rightarrow> nat option) \<Rightarrow> (string \<Rightarrow> real option) \<Rightarrow> reader \<Rightarrow> error option \<times> reader" where
  "read_FIELD parse_unsigned parse_double r =
     (case extract_string (input r) (s_tok r) of (s1, f1) \<Rightarrow>
        (case extract_count parse_unsigned f1 of (n_fields, f2) \<Rightarrow>
           (case n_fields of
              None \<Rightarrow> (Some Uninitialised, r\<lparr> input := f2, s_tok := s1 \<rparr>)
            | Some n \<Rightarrow>
                for_loop [0..<n] (\<lambda>k. read_array parse_double) (r\<lparr> input := f2, s_tok := s1 \<rparr>))))"

definition vtk_section ::
  "(string \<Rightarrow> nat option) \<Rightarrow> (string \<Rightarrow> real option) \<Rightarrow> reader \<Rightarrow> error option \<times> reader" where
  "vtk_section parse_unsigned parse_double r =
     (if s_tok r = ''POINTS'' then read_POINTS parse_unsigned parse_double r
      else if s_tok r = ''CELLS'' then read_CELLS parse_unsigned r
      else (let r1 = (if s_tok r = ''CELL_DATA'' \<or> s_tok r = ''POINT_DATA''
                      then r\<lparr> data_type := s_tok r \<rparr> else r)
            in case (if s_tok r1 = ''SCALARS'' then read_array parse_double r1 else (None, r1)) of
                 (Some e, r2) \<Rightarrow> (Some e, r2)
               | (None, r2) \<Rightarrow>
                   if s_tok r2 = ''FIELD'' then read_FIELD parse_unsigned parse_double r2
                   else (None, r2)))"

definition remaining :: "reader \<Rightarrow> nat" where
  "remaining r = length (tokens (input r))"

lemma extract_string_le: "length (tokens (snd (extract_string f old))) \<le> length (tokens f)"
  by (simp add: extract_string_def split: list.splits)

lemma extract_le: "length (tokens (snd (extract_value parse z f old))) \<le> length (tokens f)"
  by (simp add: extract_value_def split: list.splits option.splits)

lemma extract_string_less:
  "extract_string f old = (s1, f1) \<Longrightarrow> good f1 \<Longrightarrow> length (tokens f1) < length (tokens f)"
  by (auto simp: extract_string_def split: if_splits list.splits)

lemma for_loop_invariant:
  assumes "P s"
    and "\<And>i s. i \<in> set is \<Longrightarrow> P s \<Longrightarrow> P (snd (body i s))"
  shows "P (snd (for_loop is body s))"
  using assms
proof (induction "is" arbitrary: s)
  case Nil
  then show ?case by simp
next
  case (Cons i "is")
  have step: "P (snd (body i s))" using Cons.prems by simp
  show ?case
  proof (cases "body i s")
    case (Pair e s')
    with step have "P s'" by simp
    show ?thesis
    proof (cases e)
      case None
      with Pair \<open>P s'\<close> Cons show ?thesis by simp
    next
      case (Some a)
      with Pair \<open>P s'\<close> show ?thesis by simp
    qed
  qed
qed

lemma read_point_le: "remaining r \<le> k \<Longrightarrow> remaining (snd (read_point pd i r)) \<le> k"
  unfolding read_point_def remaining_def
  apply (simp split: prod.splits)
  by (metis extract_le le_trans snd_conv)


lemma read_cell_le: "remaining r \<le> k \<Longrightarrow> remaining (snd (read_cell pu i r)) \<le> k"
  unfolding read_cell_def remaining_def
  apply (simp split: prod.splits)
  by (metis extract_le extract_string_le le_trans snd_conv)

lemma read_value_le: "remaining r \<le> k \<Longrightarrow> remaining (snd (read_value pd c n i r)) \<le> k"
  unfolding read_value_def remaining_def Let_def
  apply (simp split: prod.splits)
  by (metis extract_le le_trans snd_conv)

lemma for_loop_remaining:
  assumes "\<And>i r. remaining r \<le> k \<Longrightarrow> remaining (snd (body i r)) \<le> k"
    and "remaining r \<le> k"
  shows "remaining (snd (for_loop is body r)) \<le> k"
  using assms(2) by (rule for_loop_invariant[where P = "\<lambda>r. remaining r \<le> k"]) (rule assms(1))

lemma read_POINTS_le: "remaining (snd (read_POINTS pu pd r)) \<le> remaining r"
proof -
  obtain n f1 where a: "extract_count pu (input r) = (n, f1)" by (cases "extract_count pu (input r)")
  obtain s1 f2 where b: "extract_string f1 (s_tok r) = (s1, f2)" by (cases "extract_string f1 (s_tok r)")
  have "length (tokens f1) \<le> length (tokens (input r))"
    using extract_le[of "\<lambda>t. map_option Some (pu t)" "Some 0" "input r" None] a by (simp add: extract_count_def)
  moreover have "length (tokens f2) \<le> length (tokens f1)"
    using extract_string_le[of f1 "s_tok r"] b by simp
  ultimately have le: "length (tokens f2) \<le> remaining r" by (simp add: remaining_def)
  show ?thesis
  proof (cases n)
    case None
    with a b le show ?thesis by (simp add: read_POINTS_def remaining_def)
  next
    case (Some m)
    have "remaining (snd (for_loop [0..<m] (read_point pd)
       (r\<lparr> input := f2, s_tok := s1, surf := (surf r)\<lparr> points := resize m origin3 (points (surf r)) \<rparr> \<rparr>))) \<le> remaining r"
      by (rule for_loop_remaining) (use le in \<open>auto simp: remaining_def intro: read_point_le[unfolded remaining_def]\<close>)
    with a b Some show ?thesis by (simp add: read_POINTS_def)
  qed
qed


lemma read_CELLS_le: "remaining (snd (read_CELLS pu r)) \<le> remaining r"
proof -
  obtain n f1 where a: "extract_count pu (input r) = (n, f1)" by (cases "extract_count pu (input r)")
  obtain s1 f2 where b: "extract_string f1 (s_tok r) = (s1, f2)" by (cases "extract_string f1 (s_tok r)")
  have "length (tokens f1) \<le> length (tokens (input r))"
    using extract_le[of "\<lambda>t. map_option Some (pu t)" "Some 0" "input r" None] a by (simp add: extract_count_def)
  moreover have "length (tokens f2) \<le> length (tokens f1)"
    using extract_string_le[of f1 "s_tok r"] b by simp
  ultimately have le: "length (tokens f2) \<le> remaining r" by (simp add: remaining_def)
  show ?thesis
  proof (cases n)
    case None
    with a b le show ?thesis by (simp add: read_CELLS_def remaining_def)
  next
    case (Some m)
    have "remaining (snd (for_loop [0..<m] (read_cell pu)
       (r\<lparr> input := f2, s_tok := s1, surf := (surf r)\<lparr> triangles := resize m (0, 0, 0) (triangles (surf r)) \<rparr> \<rparr>))) \<le> remaining r"
      by (rule for_loop_remaining) (use le in \<open>auto simp: remaining_def intro: read_cell_le[unfolded remaining_def]\<close>)
    with a b Some show ?thesis by (simp add: read_CELLS_def)
  qed
qed

lemma read_array_le: "remaining r \<le> k \<Longrightarrow> remaining (snd (read_array pd r)) \<le> k"
proof -
  assume k: "remaining r \<le> k"
  obtain name f1 where a: "extract_string (input r) (data_name r) = (name, f1)"
    by (cases "extract_string (input r) (data_name r)")
  obtain s1 f2 where b: "extract_string f1 (s_tok r) = (s1, f2)" by (cases "extract_string f1 (s_tok r)")
  obtain s2 f3 where c: "extract_string f2 s1 = (s2, f3)" by (cases "extract_string f2 s1")
  obtain s3 f4 where d: "extract_string f3 s2 = (s3, f4)" by (cases "extract_string f3 s2")
  have "length (tokens f1) \<le> length (tokens (input r))"
    using extract_string_le[of "input r" "data_name r"] a by simp
  moreover have "length (tokens f2) \<le> length (tokens f1)"
    using extract_string_le[of f1 "s_tok r"] b by simp
  moreover have "length (tokens f3) \<le> length (tokens f2)"
    using extract_string_le[of f2 s1] c by simp
  moreover have "length (tokens f4) \<le> length (tokens f3)"
    using extract_string_le[of f3 s2] d by simp
  ultimately have le: "length (tokens f4) \<le> k" using k by (simp add: remaining_def)
  have "\<And>st N cell. remaining (snd (for_loop [0..<N] (read_value pd cell name)
       (r\<lparr> input := f4, s_tok := s3, data_name := name, surf := st \<rparr>))) \<le> k"
    by (rule for_loop_remaining) (use le in \<open>auto simp: remaining_def intro: read_value_le[unfolded remaining_def]\<close>)
  with a b c d show ?thesis by (simp add: read_array_def Let_def)
qed

lemma read_FIELD_le: "remaining (snd (read_FIELD pu pd r)) \<le> remaining r"
proof -
  obtain s1 f1 where a: "extract_string (input r) (s_tok r) = (s1, f1)"
    by (cases "extract_string (input r) (s_tok r)")
  obtain n f2 where b: "extract_count pu f1 = (n, f2)" by (cases "extract_count pu f1")
  have "length (tokens f1) \<le> length (tokens (input r))"
    using extract_string_le[of "input r" "s_tok r"] a by simp
  moreover have "length (tokens f2) \<le> length (tokens f1)"
    using extract_le[of "\<lambda>t. map_option Some (pu t)" "Some 0" f1 None] b by (simp add: extract_count_def)
  ultimately have le: "length (tokens f2) \<le> remaining r" by (simp add: remaining_def)
  show ?thesis
  proof (cases n)
    case None
    with a b le show ?thesis by (simp add: read_FIELD_def remaining_def)
  next
    case (Some m)
    have "remaining (snd (for_loop [0..<m] (\<lambda>k. read_array pd) (r\<lparr> input := f2, s_tok := s1 \<rparr>))) \<le> remaining r"
      by (rule for_loop_remaining) (use le in \<open>auto simp: remaining_def intro: read_array_le[unfolded remaining_def]\<close>)
    with a b Some show ?thesis by (simp add: read_FIELD_def)
  qed
qed

lemma vtk_section_le: "remaining (snd (vtk_section pu pd r)) \<le> remaining r"
proof (cases "s_tok r = ''POINTS'' \<or> s_tok r = ''CELLS''")
  case True
  then show ?thesis
    by (auto simp: vtk_section_def read_POINTS_le read_CELLS_le)
next
  case False
  define r1 where "r1 = (if s_tok r = ''CELL_DATA'' \<or> s_tok r = ''POINT_DATA''
                      then r\<lparr> data_type := s_tok r \<rparr> else r)"
  define q where "q = (if s_tok r1 = ''SCALARS'' then read_array pd r1 else (None, r1))"
  have r1: "remaining r1 \<le> remaining r" by (simp add: r1_def remaining_def)
  have q: "remaining (snd q) \<le> remaining r"
    unfolding q_def using r1 by (auto intro: read_array_le)
  have res: "vtk_section pu pd r =
     (case q of (Some e, r2) \<Rightarrow> (Some e, r2)
      | (None, r2) \<Rightarrow> if s_tok r2 = ''FIELD'' then read_FIELD pu pd r2 else (None, r2))"
    using False by (simp add: vtk_section_def r1_def q_def Let_def)
  obtain e r2 where qq: "q = (e, r2)" by (cases q)
  with q have r2: "remaining r2 \<le> remaining r" by simp
  show ?thesis
  proof (cases e)
    case None
    with res qq r2 show ?thesis
      using read_FIELD_le[of pu pd r2] by auto
  next
    case (Some a)
    with res qq r2 show ?thesis by simp
  qed
qed

function vtk_loop ::
  "(string \<Rightarrow> nat option) \<Rightarrow> (string \<Rightarrow> real option) \<Rightarrow> reader \<Rightarrow> error option \<times> reader" where
  "vtk_loop parse_unsigned parse_double r =
     (case extract_string (input r) (s_tok r) of (s1, f1) \<Rightarrow>
        if good f1
        then (case vtk_section parse_unsigned parse_double (r\<lparr> input := f1, s_tok := s1 \<rparr>) of
                (Some e, r') \<Rightarrow> (Some e, r')
              | (None, r') \<Rightarrow> vtk_loop parse_unsigned parse_double r')
        else (None, r\<lparr> input := f1 \<rparr>))"
  by pat_completeness auto
termination
proof (relation "measure (\<lambda>(pu, pd, r). remaining r)")
  show "wf (measure (\<lambda>(pu, pd, r). remaining r))" by simp
next
  fix pu :: "string \<Rightarrow> nat option" and pd :: "string \<Rightarrow> real option" and r r' :: reader
    and s1 f1 and e :: "error option"
  assume a: "(s1, f1) = extract_string (input r) (s_tok r)" "good f1"
    and b: "(e, r') = vtk_section pu pd (r\<lparr> input := f1, s_tok := s1 \<rparr>)"
  have "length (tokens f1) < length (tokens (input r))"
    using a extract_string_less[of "input r" "s_tok r" s1 f1] by simp
  moreover have "remaining r' \<le> remaining (r\<lparr> input := f1, s_tok := s1 \<rparr>)"
    using vtk_section_le[of pu pd "r\<lparr> input := f1, s_tok := s1 \<rparr>"] b by (metis snd_conv)
  ultimately show "((pu, pd, r'), (pu, pd, r)) \<in> measure (\<lambda>(pu, pd, r). remaining r)"
    by (simp add: remaining_def)
qed

definition read_vtk ::
  "(string \<Rightarrow> nat option) \<Rightarrow> (string \<Rightarrow> real option) \<Rightarrow> string list option \<Rightarrow>
   SurfaceInterpolator3D \<Rightarrow> error option \<times> SurfaceInterpolator3D" where
  "read_vtk parse_unsigned parse_double contents st =
     (case contents of
        None \<Rightarrow> (None, clear st)
      | Some toks \<Rightarrow>
          (case vtk_loop parse_unsigned parse_double
                  \<lparr> input = \<lparr> tokens = toks, good = True \<rparr>, s_tok = [], data_type = [],
                    data_name = [], surf = clear st \<rparr> of
             (Some e, r) \<Rightarrow> (Some e, surf r)
           | (None, r) \<Rightarrow> preprocess (surf r)))"


subsection \<open>read_vtu\<close>

text \<open>
  \<^verbatim>\<open>SurfaceInterpolator3D::read_vtu\<close> (lines 876 to 1013) reads the file word by word as
  well. It calls functions of deal.II and of the C++ standard library, which are not
  part of this repository. \<^verbatim>\<open>Utilities::match_at_string_start\<close> and
  \<^verbatim>\<open>Utilities::split_string_list\<close> are modelled by their contract on a word without
  blanks (the only strings they are called on here): the pieces between the delimiters,
  without an empty piece after a last delimiter. What \<^verbatim>\<open>Utilities::string_to_int\<close>,
  \<^verbatim>\<open>std::stod\<close> and \<^verbatim>\<open>std::stoul\<close> make of a string is a parameter of the model;
  \<^term>\<open>None\<close> is the exception they throw. \<^verbatim>\<open>std::to_string\<close> of a size is its decimal
  numeral.
\<close>

definition match_at_string_start :: "string \<Rightarrow> string \<Rightarrow> bool" where
  "match_at_string_start name pattern = (take (length pattern) name = pattern)"

fun split_pieces :: "char \<Rightarrow> string \<Rightarrow> string \<Rightarrow> string list" where
  "split_pieces d w [] = (if w = [] then [] else [w])"
| "split_pieces d w (c # cs) =
     (if c = d then w # split_pieces d [] cs else split_pieces d (w @ [c]) cs)"

definition split_string_list :: "string \<Rightarrow> char \<Rightarrow> string list" where
  "split_string_list s delimiter = split_pieces delimiter [] s"

fun to_string :: "nat \<Rightarrow> string" where
  "to_string n =
     (if n < 10 then [char_of (48 + n)]
      else to_string (n div 10) @ [char_of (48 + n mod 10)])"

declare to_string.simps [simp del]

text \<open>
  The local variables of \<^verbatim>\<open>read_vtu\<close> are those of \<^verbatim>\<open>read_vtk\<close> and \<^verbatim>\<open>data_start\<close>.
\<close>

record vtu_reader = reader +
  data_start :: bool

text \<open>
  The inner loop (lines 932 to 1005) collects the words up to \<^verbatim>\<open></DataArray>\<close>;
  \<^term>\<open>None\<close> when the file ends before.
\<close>

fun read_data :: "string list \<Rightarrow> string list \<Rightarrow> (string list \<times> string list) option" where
  "read_data [] data = None"
| "read_data (t # ts) data =
     (if t = ''</DataArray>'' then Some (data, ts) else read_data ts (data @ [t]))"

definition size_error :: "string \<Rightarrow> nat \<Rightarrow> string \<Rightarrow> nat \<Rightarrow> error" where
  "size_error type m name n =
     FormatError (type @ '' '' @ to_string m @ '' '' @ name @ '' '' @ to_string n)"

definition store_value ::
  "(string \<Rightarrow> real option) \<Rightarrow> bool \<Rightarrow> string \<Rightarrow> string list \<Rightarrow> nat \<Rightarrow> SurfaceInterpolator3D \<Rightarrow>
   error option \<times> SurfaceInterpolator3D" where
  "store_value stod cell name data i st =
     (case stod (data ! i) of
        None \<Rightarrow> (Some (ConversionError (data ! i)), st)
      | Some x \<Rightarrow>
          (None, if cell then st\<lparr> cell_fields := assign (cell_fields st) name i x \<rparr>
                 else st\<lparr> point_fields := assign (point_fields st) name i x \<rparr>))"

definition store_point ::
  "(string \<Rightarrow> real option) \<Rightarrow> string list \<Rightarrow> nat \<Rightarrow> SurfaceInterpolator3D \<Rightarrow>
   error option \<times> SurfaceInterpolator3D" where
  "store_point stod data i st =
     (let k = 3 * i
      in case stod (data ! k) of
           None \<Rightarrow> (Some (ConversionError (data ! k)), st)
         | Some x \<Rightarrow>
             (case stod (data ! (k + 1)) of
                None \<Rightarrow> (Some (ConversionError (data ! (k + 1))), st)
              | Some y \<Rightarrow>
                  (case stod (data ! (k + 2)) of
                     None \<Rightarrow> (Some (ConversionError (data ! (k + 2))), st)
                   | Some z \<Rightarrow> (None, st\<lparr> points := (points st)[i := (x, y, z)] \<rparr>))))"

definition store_triangle ::
  "(string \<Rightarrow> nat option) \<Rightarrow> string list \<Rightarrow> nat \<Rightarrow> SurfaceInterpolator3D \<Rightarrow>
   error option \<times> SurfaceInterpolator3D" where
  "store_triangle stoul data i st =
     (let k = 3 * i
      in case stoul (data ! k) of
           None \<Rightarrow> (Some (ConversionError (data ! k)), st)
         | Some a \<Rightarrow>
             (case stoul (data ! (k + 1)) of
                None \<Rightarrow> (Some (ConversionError (data ! (k + 1))), st)
              | Some b \<Rightarrow>
                  (case stoul (data ! (k + 2)) of
                     None \<Rightarrow> (Some (ConversionError (data ! (k + 2))), st)
                   | Some c \<Rightarrow> (None, st\<lparr> triangles := (triangles st)[i := (a, b, c)] \<rparr>))))"

text \<open>The end of a data array (lines 935 to 997).\<close>

definition process_data ::
  "(string \<Rightarrow> real option) \<Rightarrow> (string \<Rightarrow> nat option) \<Rightarrow> string \<Rightarrow> string \<Rightarrow> string list \<Rightarrow>
   SurfaceInterpolator3D \<Rightarrow> error option \<times> SurfaceInterpolator3D" where
  "process_data stod stoul type name data st =
     (let n = length data
      in if type = ''<CellData>''
         then (if n \<noteq> length (triangles st)
               then (Some (size_error type (length (triangles st)) name n), st)
               else for_loop [0..<n] (store_value stod True name data)
                      (st\<lparr> cell_fields := resize_field (cell_fields st) name n 0 \<rparr>))
         else if type = ''<PointData>''
         then (if n \<noteq> length (points st)
               then (Some (size_error type (length (points st)) name n), st)
               else for_loop [0..<n] (store_value stod False name data)
                      (st\<lparr> point_fields := resize_field (point_fields st) name n 0 \<rparr>))
         else if type = ''<Points>''
         then (if n \<noteq> 3 * length (points st)
               then (Some (size_error type (length (points st)) name n), st)
               else for_loop [0..<n div 3] (store_point stod data) st)
         else if type = ''<Cells>'' \<and> name = ''connectivity''
         then (if n \<noteq> 3 * length (triangles st)
               then (Some (size_error type (length (points st)) name n), st)
               else for_loop [0..<n div 3] (store_triangle stoul data) st)
         else (None, st))"

text \<open>
  One round of the outer loop (lines 899 to 1006), for the word \<^verbatim>\<open>s\<close> just read.
  \<^verbatim>\<open>l[1]\<close> and \<^verbatim>\<open>s.back()\<close> are not checked by the code.
\<close>

definition number_of ::
  "(string \<Rightarrow> int option) \<Rightarrow> vtu_reader \<Rightarrow> error option \<times> vtu_reader" where
  "number_of string_to_int r =
     (let l = split_string_list (s_tok r) (CHR 0x22)
      in if length l < 2 then (Some OutOfBounds, r)
         else (case string_to_int (l ! 1) of
                 None \<Rightarrow> (Some (ConversionError (l ! 1)), r)
               | Some n \<Rightarrow>
                   if l ! 0 = ''NumberOfPoints=''
                   then (if n < 0 then (Some LengthError, r)
                         else (None, r\<lparr> surf := (surf r)\<lparr> points :=
                                        resize (nat n) origin3 (points (surf r)) \<rparr> \<rparr>))
                   else if l ! 0 = ''NumberOfCells=''
                   then (if n < 0 then (Some LengthError, r)
                         else (None, r\<lparr> surf := (surf r)\<lparr> triangles :=
                                        resize (nat n) (0, 0, 0) (triangles (surf r)) \<rparr> \<rparr>))
                   else (None, r)))"

definition read_name :: "vtu_reader \<Rightarrow> error option \<times> vtu_reader" where
  "read_name r =
     (if match_at_string_start (s_tok r) ''Name=''
      then (let l = split_string_list (s_tok r) (CHR 0x22)
            in if length l < 2 then (Some OutOfBounds, r) else (None, r\<lparr> data_name := l ! 1 \<rparr>))
      else (None, r))"

definition read_data_array ::
  "(string \<Rightarrow> real option) \<Rightarrow> (string \<Rightarrow> nat option) \<Rightarrow> vtu_reader \<Rightarrow> error option \<times> vtu_reader" where
  "read_data_array stod stoul r =
     (case read_data (tokens (input r)) [] of
        None \<Rightarrow>
          (None, r\<lparr> input := \<lparr> tokens = [], good = False \<rparr>,
                     s_tok := (if tokens (input r) = [] then s_tok r else last (tokens (input r))) \<rparr>)
      | Some (data, rest) \<Rightarrow>
          (case process_data stod stoul (data_type r) (data_name r) data (surf r) of
             (Some e, st) \<Rightarrow>
               (Some e, r\<lparr> input := \<lparr> tokens = rest, good = True \<rparr>, s_tok := ''</DataArray>'',
                           surf := st \<rparr>)
           | (None, st) \<Rightarrow>
               (None, r\<lparr> input := \<lparr> tokens = rest, good = True \<rparr>, s_tok := ''</DataArray>'',
                         surf := st, data_start := False, data_name := [] \<rparr>)))"

definition vtu_step ::
  "(string \<Rightarrow> int option) \<Rightarrow> (string \<Rightarrow> real option) \<Rightarrow> (string \<Rightarrow> nat option) \<Rightarrow> vtu_reader \<Rightarrow>
   error option \<times> vtu_reader" where
  "vtu_step string_to_int stod stoul r =
     (if match_at_string_start (s_tok r) ''NumberOf'' then number_of string_to_int r
      else (let r1 = (if match_at_string_start (s_tok r) ''<Cell'' \<or>
                         match_at_string_start (s_tok r) ''<Point''
                      then r\<lparr> data_type := s_tok r \<rparr> else r)
            in case read_name r1 of
                 (Some e, r2) \<Rightarrow> (Some e, r2)
               | (None, r2) \<Rightarrow>
                   (let r3 = (if s_tok r2 = ''<DataArray'' then r2\<lparr> data_start := True \<rparr> else r2)
                    in if data_start r3
                       then (if s_tok r3 = [] then (Some OutOfBounds, r3)
                             else if last (s_tok r3) = CHR ''>'' then read_data_array stod stoul r3
                             else (None, r3))
                       else (None, r3))))"

lemma read_data_le: "read_data toks data = Some (d, rest) \<Longrightarrow> length rest \<le> length toks"
  by (induction toks arbitrary: data) (auto split: if_splits intro: le_SucI)

lemma read_data_array_le:
  "length (tokens (input (snd (read_data_array stod stoul r)))) \<le> length (tokens (input r))"
  by (auto simp: read_data_array_def split: option.splits prod.splits dest: read_data_le)

lemma number_of_input: "input (snd (number_of sti r)) = input r"
  by (simp add: number_of_def Let_def split: option.splits)

lemma read_name_input: "input (snd (read_name r)) = input r"
  by (simp add: read_name_def Let_def)

lemma vtu_step_le:
  "length (tokens (input (snd (vtu_step sti stod stoul r)))) \<le> length (tokens (input r))"
proof (cases "match_at_string_start (s_tok r) ''NumberOf''")
  case True
  then show ?thesis by (simp add: vtu_step_def number_of_input)
next
  case False
  define r1 where "r1 = (if match_at_string_start (s_tok r) ''<Cell'' \<or>
                         match_at_string_start (s_tok r) ''<Point''
                      then r\<lparr> data_type := s_tok r \<rparr> else r)"
  have i1: "input r1 = input r" by (simp add: r1_def)
  obtain e r2 where n: "read_name r1 = (e, r2)" by (cases "read_name r1")
  then have i2: "input r2 = input r" using read_name_input[of r1] i1 by simp
  define r3 where "r3 = (if s_tok r2 = ''<DataArray'' then r2\<lparr> data_start := True \<rparr> else r2)"
  have i3: "input r3 = input r" using i2 by (simp add: r3_def)
  show ?thesis
  proof (cases e)
    case (Some a)
    with False n i2 show ?thesis by (simp add: vtu_step_def r1_def Let_def)
  next
    case None
    have "vtu_step sti stod stoul r =
        (if data_start r3
         then (if s_tok r3 = [] then (Some OutOfBounds, r3)
               else if last (s_tok r3) = CHR ''>'' then read_data_array stod stoul r3
               else (None, r3))
         else (None, r3))"
      using False n None by (simp add: vtu_step_def r1_def r3_def Let_def)
    then show ?thesis using i3 read_data_array_le[of stod stoul r3] by auto
  qed
qed

function vtu_loop ::
  "(string \<Rightarrow> int option) \<Rightarrow> (string \<Rightarrow> real option) \<Rightarrow> (string \<Rightarrow> nat option) \<Rightarrow> vtu_reader \<Rightarrow>
   error option \<times> vtu_reader" where
  "vtu_loop string_to_int stod stoul r =
     (case extract_string (input r) (s_tok r) of (s1, f1) \<Rightarrow>
        if good f1
        then (case vtu_step string_to_int stod stoul (r\<lparr> input := f1, s_tok := s1 \<rparr>) of
                (Some e, r') \<Rightarrow> (Some e, r')
              | (None, r') \<Rightarrow> vtu_loop string_to_int stod stoul r')
        else (None, r\<lparr> input := f1 \<rparr>))"
  by pat_completeness auto
termination
proof (relation "measure (\<lambda>(sti, stod, stoul, r). length (tokens (input r)))")
  show "wf (measure (\<lambda>(sti, stod, stoul, r). length (tokens (input r))))" by simp
next
  fix sti :: "string \<Rightarrow> int option" and stod :: "string \<Rightarrow> real option"
    and stoul :: "string \<Rightarrow> nat option" and r r' :: vtu_reader
    and s1 f1 and e :: "error option"
  assume a: "(s1, f1) = extract_string (input r) (s_tok r)" "good f1"
    and b: "(e, r') = vtu_step sti stod stoul (r\<lparr> input := f1, s_tok := s1 \<rparr>)"
  have "length (tokens f1) < length (tokens (input r))"
    using a extract_string_less[of "input r" "s_tok r" s1 f1] by simp
  moreover have "length (tokens (input r')) \<le> length (tokens (input (r\<lparr> input := f1, s_tok := s1 \<rparr>)))"
    using vtu_step_le[of sti stod stoul "r\<lparr> input := f1, s_tok := s1 \<rparr>"] b by (metis snd_conv)
  ultimately show "((sti, stod, stoul, r'), (sti, stod, stoul, r))
      \<in> measure (\<lambda>(sti, stod, stoul, r). length (tokens (input r)))"
    by simp
qed

declare vtu_loop.simps [simp del]

definition read_vtu ::
  "(string \<Rightarrow> int option) \<Rightarrow> (string \<Rightarrow> real option) \<Rightarrow> (string \<Rightarrow> nat option) \<Rightarrow>
   string list option \<Rightarrow> SurfaceInterpolator3D \<Rightarrow> error option \<times> SurfaceInterpolator3D" where
  "read_vtu string_to_int stod stoul contents st =
     (case contents of
        None \<Rightarrow> (None, clear st)
      | Some toks \<Rightarrow>
          (case vtu_loop string_to_int stod stoul
                  \<lparr> input = \<lparr> tokens = toks, good = True \<rparr>, s_tok = [], data_type = [],
                    data_name = [], surf = clear st, data_start = False \<rparr> of
             (Some e, r) \<Rightarrow> (Some e, surf r)
           | (None, r) \<Rightarrow> preprocess (surf r)))"

section \<open>SurfaceInterpolator2D\<close>

record SurfaceInterpolator2D =
  points2d :: "point2 list"
  fields2d :: "string \<rightharpoonup> real list"

text \<open>\<^verbatim>\<open>SurfaceInterpolator2D::clear\<close> and \<^verbatim>\<open>SurfaceInterpolator2D::field\<close> (lines 1554 to 1570).\<close>

definition clear2d :: "SurfaceInterpolator2D \<Rightarrow> SurfaceInterpolator2D" where
  "clear2d st = st\<lparr> points2d := [], fields2d := Map.empty \<rparr>"

definition field2d :: "SurfaceInterpolator2D \<Rightarrow> string \<Rightarrow> error + real list" where
  "field2d st field_name =
     (case fields2d st field_name of
        None \<Rightarrow> Inl (FieldNotFound field_name)
      | Some f \<Rightarrow> Inr f)"

subsection \<open>read_txt\<close>

text \<open>
  \<^verbatim>\<open>SurfaceInterpolator2D::read_txt\<close> (lines 1422 to 1482) reads the file line by line
  (\<^term>\<open>None\<close>: the file cannot be opened). The first line that has a third word gives
  the field names; every later line that is not empty adds a point, also a line of
  blanks (\<^verbatim>\<open>line.empty()\<close> is false for it). \<^verbatim>\<open>double val\<close> is not initialised: a row
  with too few columns pushes the value of the column before it, and an unset \<^verbatim>\<open>val\<close>
  when there is none.
\<close>

definition is_space :: "char \<Rightarrow> bool" where
  "is_space c = (c \<in> set [CHR '' '', CHR 0x09, CHR 0x0A, CHR 0x0B, CHR 0x0C, CHR 0x0D])"

fun split_words :: "string \<Rightarrow> string \<Rightarrow> string list" where
  "split_words w [] = (if w = [] then [] else [w])"
| "split_words w (c # cs) =
     (if is_space c then (if w = [] then split_words [] cs else w # split_words [] cs)
      else split_words (w @ [c]) cs)"

record txt_reader =
  field_names :: "string list"
  field_values :: "real list list"
  loaded :: SurfaceInterpolator2D

definition read_column ::
  "(string \<Rightarrow> real option) \<Rightarrow> nat \<Rightarrow> stream \<times> real option \<times> real list list \<Rightarrow>
   error option \<times> stream \<times> real option \<times> real list list" where
  "read_column parse_double i st =
     (case st of (ss, val, fv) \<Rightarrow>
        (case extract_value (\<lambda>t. map_option Some (parse_double t)) (Some 0) ss val of (val', ss') \<Rightarrow>
           (case val' of
              None \<Rightarrow> (Some Uninitialised, ss', val', fv)
            | Some x \<Rightarrow> (None, ss', val', fv[i := fv ! i @ [x]]))))"

definition read_line :: "(string \<Rightarrow> real option) \<Rightarrow> string \<Rightarrow> txt_reader \<Rightarrow> error option \<times> txt_reader" where
  "read_line parse_double line r =
     (if line = [] then (None, r)
      else if field_names r = []
      then (let names = drop 2 (split_words [] line)
            in (None, r\<lparr> field_names := names,
                          field_values := resize (length names) [] (field_values r) \<rparr>))
      else (case extract_value parse_double 0 \<lparr> tokens = split_words [] line, good = True \<rparr> 0 of
              (x, ss1) \<Rightarrow>
                (case extract_value parse_double 0 ss1 0 of
                   (y, ss2) \<Rightarrow>
                     (case for_loop [0..<length (field_names r)] (read_column parse_double)
                             (ss2, None, field_values r) of
                        (e, ss3, val, fv) \<Rightarrow>
                          (e, r\<lparr> field_values := fv,
                                 loaded := (loaded r)\<lparr> points2d := points2d (loaded r) @ [(x, y)] \<rparr> \<rparr>)))))"

definition read_txt ::
  "(string \<Rightarrow> real option) \<Rightarrow> string list option \<Rightarrow> SurfaceInterpolator2D \<Rightarrow>
   error option \<times> SurfaceInterpolator2D" where
  "read_txt parse_double contents st =
     (case contents of
        None \<Rightarrow> (None, clear2d st)
      | Some lines \<Rightarrow>
          (case for_loop lines (read_line parse_double)
                  \<lparr> field_names = [], field_values = [], loaded = clear2d st \<rparr> of
             (Some e, r) \<Rightarrow> (Some e, loaded r)
           | (None, r) \<Rightarrow>
               (None, (loaded r)\<lparr> fields2d :=
                        fold (\<lambda>i fmap. fmap(field_names r ! i \<mapsto> field_values r ! i))
                          [0..<length (field_names r)] (fields2d (loaded r)) \<rparr>)))"

subsection \<open>interpolate\<close>

text \<open>
  \<^verbatim>\<open>SurfaceInterpolator2D::interpolate\<close> (lines 1484 to 1531). The segment loop runs
  while \<^verbatim>\<open>j + 1 < n_points\<close>; its \<^verbatim>\<open>d2\<close> is the distance itself, not its square. After
  the loop the code reads \<^verbatim>\<open>points[j_found]\<close>, \<^verbatim>\<open>points[j_found + 1]\<close>,
  \<^verbatim>\<open>source_field[j_found]\<close> and \<^verbatim>\<open>source_field[j_found + 1]\<close> with no check.
\<close>

definition segment_step ::
  "point2 list \<Rightarrow> point2 \<Rightarrow> nat \<Rightarrow> point2 found \<Rightarrow> error option \<times> point2 found" where
  "segment_step pts p j s =
     (if length pts \<le> j + 1 then (Some OutOfBounds, s)
      else (let p_trial = closest_segment_point2 p (pts ! j) (pts ! (j + 1));
                d2 = norm2 (sub2 p_trial p)
            in if d2 < d2_min s \<or> d2_min s < 0
               then (None, \<lparr> p_found = p_trial, j_found = j, d2_min = d2 \<rparr>)
               else (None, s)))"

definition blend2d ::
  "point2 list \<Rightarrow> real list \<Rightarrow> point2 found \<Rightarrow> real option \<Rightarrow> error + real option" where
  "blend2d pts source_field s old =
     (if j_found s + 1 < length pts
      then (let t2 = barycentric_coordinates2 (p_found s) (pts ! j_found s) (pts ! (j_found s + 1))
            in if j_found s + 1 < length source_field
               then (case t2 of
                       None \<Rightarrow> Inr None
                     | Some (w0, w1) \<Rightarrow>
                         Inr (map_option
                                (\<lambda>x. x + w0 * source_field ! j_found s
                                        + w1 * source_field ! (j_found s + 1)) old))
               else Inl OutOfBounds)
      else Inl OutOfBounds)"

definition interpolate2d_step ::
  "SurfaceInterpolator2D \<Rightarrow> real list \<Rightarrow> point2 list \<Rightarrow> bool list \<Rightarrow> nat \<Rightarrow>
   real option list \<Rightarrow> error option \<times> real option list" where
  "interpolate2d_step st source_field target_points markers i target_values =
     (if length markers \<le> i then (Some OutOfBounds, target_values)
      else if \<not> markers ! i then (None, target_values)
      else (case for_loop [0..<length (points2d st) - 1]
                   (segment_step (points2d st) (target_points ! i))
                   \<lparr> p_found = origin2, j_found = 0, d2_min = -1 \<rparr> of
              (Some e, s) \<Rightarrow> (Some e, target_values)
            | (None, s) \<Rightarrow>
                (case blend2d (points2d st) source_field s (target_values ! i) of
                   Inl e \<Rightarrow> (Some e, target_values)
                 | Inr v \<Rightarrow> (None, target_values[i := v]))))"

definition interpolate2d ::
  "SurfaceInterpolator2D \<Rightarrow> string \<Rightarrow> point2 list \<Rightarrow> bool list \<Rightarrow> real option list \<Rightarrow>
   error option \<times> real option list" where
  "interpolate2d st field_name target_points markers target_values =
     (case field2d st field_name of
        Inl e \<Rightarrow> (Some e, target_values)
      | Inr source_field \<Rightarrow>
          (let n_values = length target_points
           in for_loop [0..<n_values]
                (interpolate2d_step st source_field target_points markers)
                (replicate n_values (Some 0))))"

text \<open>
  The overload for target points in 3D (lines 1533 to 1552): \<open>(x, y, z)\<close> becomes
  \<open>(hypot x y, z)\<close>.
\<close>

definition interpolate2d_xyz ::
  "SurfaceInterpolator2D \<Rightarrow> string \<Rightarrow> point3 list \<Rightarrow> bool list \<Rightarrow> real option list \<Rightarrow>
   error option \<times> real option list" where
  "interpolate2d_xyz st field_name target_points markers target_values =
     interpolate2d st field_name
       (map (\<lambda>(x, y, z). (sqrt (x * x + y * y), z)) target_points) markers target_values"

section \<open>Concrete surfaces\<close>

text \<open>
  The surface with the single triangle \<open>(0,0,0), (1,0,0), (0,1,0)\<close>, a cell field
  \<open>f\<close> of value 5 and a point field \<open>g\<close> with the vertex values 1, 2, 3: as given, and
  as \<^verbatim>\<open>preprocess\<close> leaves it.
\<close>

definition unit_triangle :: Triangle where
  "unit_triangle = \<lparr> m_points = ((0, 0, 0), (1, 0, 0), (0, 1, 0)), m_normal = (0, 0, 1),
                      m_center = (1 / 3, 1 / 3, 0), m_area = 1 / 2, m_longest_side = sqrt 2 \<rparr>"

definition unit_surface :: SurfaceInterpolator3D where
  "unit_surface = \<lparr> points = [(0, 0, 0), (1, 0, 0), (0, 1, 0)], triangles = [(0, 1, 2)],
                     cell_fields = [''f'' \<mapsto> [5]], point_fields = [''g'' \<mapsto> [1, 2, 3]],
                     cell_vector_fields = Map.empty, triangle_cache = [] \<rparr>"

definition unit_store :: SurfaceInterpolator3D where
  "unit_store = \<lparr> points = [(0, 0, 0), (1, 0, 0), (0, 1, 0)], triangles = [(0, 1, 2)],
                   cell_fields = [''f'' \<mapsto> [5], ''area'' \<mapsto> [1 / 2], ''longest_side'' \<mapsto> [sqrt 2]],
                   point_fields = [''g'' \<mapsto> [1, 2, 3]],
                   cell_vector_fields = [''center'' \<mapsto> [(1 / 3, 1 / 3, 0)], ''normal'' \<mapsto> [(0, 0, 1)]],
                   triangle_cache = [unit_triangle] \<rparr>"

definition empty_surface :: SurfaceInterpolator3D where
  "empty_surface = \<lparr> points = [], triangles = [], cell_fields = Map.empty,
                      point_fields = Map.empty, cell_vector_fields = Map.empty,
                      triangle_cache = [] \<rparr>"

text \<open>The polyline \<open>(0,0), (1,0), (2,0)\<close> with the field \<open>q\<close> of values 0, 10, 20.\<close>

definition polyline :: SurfaceInterpolator2D where
  "polyline = \<lparr> points2d = [(0, 0), (1, 0), (2, 0)], fields2d = [''q'' \<mapsto> [0, 10, 20]] \<rparr>"

definition empty_polyline :: SurfaceInterpolator2D where
  "empty_polyline = \<lparr> points2d = [], fields2d = Map.empty \<rparr>"

text \<open>
  Numbers written with decimal digits only, which every \<^verbatim>\<open>operator>>\<close> reads as
  the number they spell.
\<close>

definition digit_value :: "char \<Rightarrow> nat option" where
  "digit_value c =
     (let v = (of_char c :: nat) in if 48 \<le> v \<and> v \<le> 57 then Some (v - 48) else None)"

fun parse_digits :: "nat \<Rightarrow> string \<Rightarrow> nat option" where
  "parse_digits acc [] = Some acc"
| "parse_digits acc (c # cs) =
     (case digit_value c of None \<Rightarrow> None | Some d \<Rightarrow> parse_digits (10 * acc + d) cs)"

definition parse_decimal :: "string \<Rightarrow> nat option" where
  "parse_decimal t = (if t = [] then None else parse_digits 0 t)"

definition parse_decimal_double :: "string \<Rightarrow> real option" where
  "parse_decimal_double t = map_option real (parse_decimal t)"

section \<open>Notions used in the properties\<close>

text \<open>The entries of an output vector at the unmarked indices are zero.\<close>

definition unmarked_zero :: "nat \<Rightarrow> bool list \<Rightarrow> real option list \<Rightarrow> bool" where
  "unmarked_zero n markers out = (length out = n \<and> (\<forall>i<n. \<not> markers ! i \<longrightarrow> out ! i = Some 0))"

text \<open>
  The test of the pruning pass, and the distance of a point to a triangle: the length
  of the vector from the point to \<^verbatim>\<open>closest_triangle_point\<close>, and its square, which is
  what the search compares. The candidates of a search are the triangles that the
  pruning pass keeps, or all of them when it keeps none.
\<close>

definition pruned :: "Triangle \<Rightarrow> point3 \<Rightarrow> bool" where
  "pruned tr p = (norm3 (sub3 p (m_center tr)) > 3 * m_longest_side tr)"

definition distance2 :: "Triangle \<Rightarrow> point3 \<Rightarrow> real" where
  "distance2 tr p = norm_square3 (sub3 (closest_triangle_point tr p) p)"

definition distance :: "Triangle \<Rightarrow> point3 \<Rightarrow> real" where
  "distance tr p = norm3 (sub3 (closest_triangle_point tr p) p)"

definition candidates :: "Triangle list \<Rightarrow> nat \<Rightarrow> point3 \<Rightarrow> nat set" where
  "candidates cache n p =
     (if \<exists>j<n. \<not> pruned (cache ! j) p then {j. j < n \<and> \<not> pruned (cache ! j) p}
      else {j. j < n})"

text \<open>
  The search without the pruning pass: the second loop of \<^verbatim>\<open>interpolate\<close> (lines 1165 to
  1179) run from the initial state, followed by the same \<^verbatim>\<open>AssertThrow\<close>.
\<close>

definition exhaustive_scan :: "Triangle list \<Rightarrow> nat \<Rightarrow> point3 \<Rightarrow> error + point3 found" where
  "exhaustive_scan cache n_triangles p =
     (case for_loop [0..<n_triangles] (search_step False cache p)
             \<lparr> p_found = origin3, j_found = 0, d2_min = -1 \<rparr> of
        (Some e, s) \<Rightarrow> Inl e
      | (None, s) \<Rightarrow> if d2_min s \<ge> 0 then Inr s else Inl (InterpolationFailed p))"

text \<open>
  A surface of two triangles: a small one in the plane \<open>z = 1\<close> and a large one in the
  plane \<open>z = -4\<close>, with a cell field \<open>f\<close> of values 1 and 2; as given, and as
  \<^verbatim>\<open>preprocess\<close> leaves it.
\<close>

definition near_triangle :: Triangle where
  "near_triangle = \<lparr> m_points = ((0, 0, 1), (1, 0, 1), (0, 1, 1)), m_normal = (0, 0, 1),
                      m_center = (1 / 3, 1 / 3, 1), m_area = 1 / 2, m_longest_side = sqrt 2 \<rparr>"

definition far_triangle :: Triangle where
  "far_triangle = \<lparr> m_points = ((0, 0, -4), (3, 0, -4), (0, 3, -4)), m_normal = (0, 0, 1),
                     m_center = (1, 1, -4), m_area = 9 / 2, m_longest_side = sqrt 18 \<rparr>"

definition pruning_surface :: SurfaceInterpolator3D where
  "pruning_surface =
     \<lparr> points = [(0, 0, 1), (1, 0, 1), (0, 1, 1), (0, 0, -4), (3, 0, -4), (0, 3, -4)],
       triangles = [(0, 1, 2), (3, 4, 5)],
       cell_fields = [''f'' \<mapsto> [1, 2]], point_fields = Map.empty,
       cell_vector_fields = Map.empty, triangle_cache = [] \<rparr>"

definition pruning_store :: SurfaceInterpolator3D where
  "pruning_store =
     \<lparr> points = [(0, 0, 1), (1, 0, 1), (0, 1, 1), (0, 0, -4), (3, 0, -4), (0, 3, -4)],
       triangles = [(0, 1, 2), (3, 4, 5)],
       cell_fields = [''f'' \<mapsto> [1, 2], ''area'' \<mapsto> [1 / 2, 9 / 2],
                      ''longest_side'' \<mapsto> [sqrt 2, sqrt 18]],
       point_fields = Map.empty,
       cell_vector_fields = [''center'' \<mapsto> [(1 / 3, 1 / 3, 1), (1, 1, -4)],
                             ''normal'' \<mapsto> [(0, 0, 1), (0, 0, 1)]],
       triangle_cache = [near_triangle, far_triangle] \<rparr>"

text \<open>
  A store as the loaders and \<^verbatim>\<open>preprocess\<close> leave it for a legal file: one cached
  triangle per triangle, one value per triangle in a cell field and per point in a
  point field, every vertex index that of a point.
\<close>

definition well_formed :: "SurfaceInterpolator3D \<Rightarrow> bool" where
  "well_formed st =
     (length (triangle_cache st) = length (triangles st) \<and>
      (\<forall>name f. cell_fields st name = Some f \<longrightarrow> length f = length (triangles st)) \<and>
      (\<forall>name f. point_fields st name = Some f \<longrightarrow> length f = length (points st)) \<and>
      (\<forall>t\<in>set (triangles st). case t of (v0, v1, v2) \<Rightarrow>
         v0 < length (points st) \<and> v1 < length (points st) \<and> v2 < length (points st)))"

text \<open>
  The store that \<^verbatim>\<open>read_vtk\<close> makes of a file without a word: \<^verbatim>\<open>preprocess\<close> adds its
  four fields, all of them empty.
\<close>

definition blank_store :: SurfaceInterpolator3D where
  "blank_store = \<lparr> points = [], triangles = [],
                    cell_fields = [''area'' \<mapsto> [], ''longest_side'' \<mapsto> []],
                    point_fields = Map.empty,
                    cell_vector_fields = [''center'' \<mapsto> [], ''normal'' \<mapsto> []],
                    triangle_cache = [] \<rparr>"

text \<open>
  For segment \<open>j\<close> of a polyline, from point \<open>j\<close> to point \<open>j + 1\<close>: the closest point
  to \<open>p\<close>, and its distance to \<open>p\<close>. The clamped parameter is \<open>t\<close> of
  \<^verbatim>\<open>closest_segment_point\<close> on a segment of positive length.
\<close>

definition segment_closest :: "point2 list \<Rightarrow> nat \<Rightarrow> point2 \<Rightarrow> point2" where
  "segment_closest pts j p = closest_segment_point2 p (pts ! j) (pts ! (j + 1))"

definition segment_distance :: "point2 list \<Rightarrow> nat \<Rightarrow> point2 \<Rightarrow> real" where
  "segment_distance pts j p = norm2 (sub2 (segment_closest pts j p) p)"

definition clamped_parameter :: "point2 \<Rightarrow> point2 \<Rightarrow> point2 \<Rightarrow> real" where
  "clamped_parameter p a b =
     max 0 (min 1 (dot2 (sub2 b a) (sub2 p a) / norm_square2 (sub2 b a)))"

text \<open>
  The polyline of the single point \<open>(0, 0)\<close> with the field \<open>q\<close> of value 5.
\<close>

definition one_point_polyline :: SurfaceInterpolator2D where
  "one_point_polyline = \<lparr> points2d = [(0, 0)], fields2d = [''q'' \<mapsto> [5]] \<rparr>"

text \<open>
  What holds between two lines of \<^verbatim>\<open>read_txt\<close>: one vector of values per field name,
  each as long as the point vector; no point before the header; the map of the fields
  still empty.
\<close>

definition txt_invariant :: "txt_reader \<Rightarrow> bool" where
  "txt_invariant r =
     (length (field_values r) = length (field_names r) \<and>
      (\<forall>v\<in>set (field_values r). length v = length (points2d (loaded r))) \<and>
      (field_names r = [] \<longrightarrow> points2d (loaded r) = []) \<and>
      fields2d (loaded r) = Map.empty)"

text \<open>
  The vertex indices of a triangle as a list, \<^verbatim>\<open>for (const auto &id : v)\<close>. The triangles
  are valid when every vertex index is that of a point, and proper when the three
  indices of each triangle differ. A triangle is incident on the points it names.
\<close>

definition slots :: "nat \<times> nat \<times> nat \<Rightarrow> nat list" where
  "slots t = (case t of (v0, v1, v2) \<Rightarrow> [v0, v1, v2])"

definition valid_triangles :: "SurfaceInterpolator3D \<Rightarrow> bool" where
  "valid_triangles st = (\<forall>t\<in>set (triangles st). \<forall>v\<in>set (slots t). v < length (points st))"

definition incident :: "(nat \<times> nat \<times> nat) list \<Rightarrow> nat \<Rightarrow> nat set" where
  "incident tris p = {i. i < length tris \<and> p \<in> set (slots (tris ! i))}"

definition proper_triangles :: "SurfaceInterpolator3D \<Rightarrow> bool" where
  "proper_triangles st = (\<forall>t\<in>set (triangles st). distinct (slots t))"

text \<open>
  A square of two triangles with a fifth point that no triangle names, a cell field
  \<open>q\<close> and a point field \<open>g\<close>.
\<close>

definition quad :: SurfaceInterpolator3D where
  "quad = \<lparr> points = [(0, 0, 0), (1, 0, 0), (0, 1, 0), (1, 1, 0), (9, 9, 9)],
             triangles = [(0, 1, 2), (1, 3, 2)],
             cell_fields = [''q'' \<mapsto> [2, 4]], point_fields = [''g'' \<mapsto> [1, 2, 3, 4, 0]],
             cell_vector_fields = Map.empty, triangle_cache = [] \<rparr>"

text \<open>
  The words of two files: one whose single cell has four vertices, and a legal file of
  the unit triangle with its two fields.
\<close>

definition bad_cell_file :: "string list" where
  "bad_cell_file = [''POINTS'', ''1'', ''float'', ''0'', ''0'', ''0'',
                    ''CELLS'', ''1'', ''5'', ''4'', ''0'', ''0'', ''0'', ''0'']"

definition unit_file :: "string list" where
  "unit_file = [''#'', ''vtk'', ''DataFile'', ''Version'', ''4.2'', ''unit'', ''ASCII'',
                ''DATASET'', ''POLYDATA'',
                ''POINTS'', ''3'', ''float'', ''0'', ''0'', ''0'', ''1'', ''0'', ''0'', ''0'', ''1'', ''0'',
                ''CELLS'', ''1'', ''4'', ''3'', ''0'', ''1'', ''2'',
                ''CELL_DATA'', ''1'', ''SCALARS'', ''f'', ''float'', ''LOOKUP_TABLE'', ''default'', ''5'',
                ''POINT_DATA'', ''3'', ''SCALARS'', ''g'', ''float'', ''LOOKUP_TABLE'', ''default'',
                ''1'', ''2'', ''3'']"

text \<open>
  The number of triangle corners at a point: what \<^verbatim>\<open>count\<close> holds for it at the end of
  \<^verbatim>\<open>cell_to_point\<close>.
\<close>

definition corners :: "(nat \<times> nat \<times> nat) list \<Rightarrow> nat \<Rightarrow> nat" where
  "corners tris p = (\<Sum>i<length tris. count_list (slots (tris ! i)) p)"

text \<open>The double nearest to \<open>1/10\<close>, and the unit triangle with that value on its cell.\<close>

definition tenth :: real where
  "tenth = 3602879701896397 / 2 ^ 55"

definition tenth_store :: SurfaceInterpolator3D where
  "tenth_store = unit_store\<lparr> cell_fields := [''f'' \<mapsto> [tenth]] \<rparr>"

text \<open>
  A store without what \<^verbatim>\<open>preprocess\<close> derives: no cached triangle and no vector field.
\<close>

definition underived :: "SurfaceInterpolator3D \<Rightarrow> bool" where
  "underived st = (triangle_cache st = [] \<and> cell_vector_fields st = Map.empty)"

text \<open>
  The words of a \<^verbatim>\<open>.vtu\<close> file that announces three points and one cell and then gives
  two coordinates. The double quote is the character \<open>0x22\<close>.
\<close>

definition quoted :: "string \<Rightarrow> string \<Rightarrow> string \<Rightarrow> string" where
  "quoted key v rest = key @ [CHR 0x22] @ v @ [CHR 0x22] @ rest"

definition short_points_file :: "string list" where
  "short_points_file =
     [''<Piece'', quoted ''NumberOfPoints='' ''3'' [], quoted ''NumberOfCells='' ''1'' ''>'',
      ''<Points>'', ''<DataArray'', quoted ''type='' ''Float32'' [], quoted ''Name='' ''Points'' [],
      quoted ''NumberOfComponents='' ''3'' [], quoted ''format='' ''ascii'' ''>'',
      ''0'', ''0'', ''</DataArray>'']"

definition parse_decimal_int :: "string \<Rightarrow> int option" where
  "parse_decimal_int t = map_option int (parse_decimal t)"

text \<open>The words of a legal \<^verbatim>\<open>.vtu\<close> file of the unit triangle with its two fields.\<close>

definition unit_vtu_file :: "string list" where
  "unit_vtu_file =
     [''<VTKFile'', quoted ''type='' ''UnstructuredGrid'' ''>'', ''<UnstructuredGrid>'',
      ''<Piece'', quoted ''NumberOfPoints='' ''3'' [], quoted ''NumberOfCells='' ''1'' ''>'',
      ''<Points>'', ''<DataArray'', quoted ''type='' ''Float32'' [], quoted ''Name='' ''Points'' [],
      quoted ''NumberOfComponents='' ''3'' [], quoted ''format='' ''ascii'' ''>'',
      ''0'', ''0'', ''0'', ''1'', ''0'', ''0'', ''0'', ''1'', ''0'', ''</DataArray>'', ''</Points>'',
      ''<Cells>'', ''<DataArray'', quoted ''type='' ''Int32'' [], quoted ''Name='' ''connectivity'' [],
      quoted ''format='' ''ascii'' ''>'', ''0'', ''1'', ''2'', ''</DataArray>'',
      ''<DataArray'', quoted ''type='' ''Int32'' [], quoted ''Name='' ''offsets'' [],
      quoted ''format='' ''ascii'' ''>'', ''3'', ''</DataArray>'', ''</Cells>'',
      ''<CellData>'', ''<DataArray'', quoted ''type='' ''Float32'' [], quoted ''Name='' ''f'' [],
      quoted ''format='' ''ascii'' ''>'', ''5'', ''</DataArray>'', ''</CellData>'',
      ''<PointData>'', ''<DataArray'', quoted ''type='' ''Float32'' [], quoted ''Name='' ''g'' [],
      quoted ''format='' ''ascii'' ''>'', ''1'', ''2'', ''3'', ''</DataArray>'', ''</PointData>'',
      ''</Piece>'', ''</UnstructuredGrid>'', ''</VTKFile>'']"

section \<open>Loops\<close>

lemma norm_square3_nonneg: "0 \<le> norm_square3 v"
  by (cases v) (simp add: norm_square3_def)

lemma for_loop_append:
  "for_loop (xs @ ys) body s =
     (case for_loop xs body s of (Some e, s') \<Rightarrow> (Some e, s') | (None, s') \<Rightarrow> for_loop ys body s')"
  by (induction xs arbitrary: s) (auto split: prod.splits option.splits)

lemma for_loop_upt_Suc:
  "for_loop [0..<Suc n] body s =
     (case for_loop [0..<n] body s of (Some e, s') \<Rightarrow> (Some e, s') | (None, s') \<Rightarrow> body n s')"
  by (simp add: for_loop_append split: prod.splits option.splits)

text \<open>A loop whose step \<open>i\<close> writes entry \<open>i\<close> of a vector and nothing else.\<close>

lemma for_loop_pointwise:
  assumes body: "\<And>i tv. body i tv =
      (case g i (tv ! i) of Inl e \<Rightarrow> (Some e, tv) | Inr v \<Rightarrow> (None, tv[i := v]))"
    and run: "for_loop [0..<m] body init = (None, out)"
    and m: "m \<le> length init"
  shows "length out = length init \<and> (\<forall>i<m. g i (init ! i) = Inr (out ! i)) \<and>
         (\<forall>i\<ge>m. out ! i = init ! i)"
  using run m
proof (induction m arbitrary: out)
  case 0
  then show ?case by simp
next
  case (Suc m)
  from Suc.prems obtain mid where mid: "for_loop [0..<m] body init = (None, mid)"
    and last: "body m mid = (None, out)"
    unfolding for_loop_upt_Suc by (auto split: prod.splits option.splits)
  from Suc.prems have m: "m < length init" by simp
  from Suc.IH[OF mid] m have len: "length mid = length init"
    and before: "\<forall>i<m. g i (init ! i) = Inr (mid ! i)"
    and rest: "\<forall>i\<ge>m. mid ! i = init ! i" by auto
  from last body[of m mid] obtain v where v: "g m (mid ! m) = Inr v" and out: "out = mid[m := v]"
    by (auto split: sum.splits)
  have "length out = length init" using out len by simp
  moreover have "g i (init ! i) = Inr (out ! i)" if "i < Suc m" for i
  proof (cases "i = m")
    case True
    then show ?thesis using v out rest len m by simp
  next
    case False
    with that have "i < m" by simp
    then show ?thesis using before out by simp
  qed
  moreover have "out ! i = init ! i" if "Suc m \<le> i" for i
    using that out rest by simp
  ultimately show ?case by blast
qed

text \<open>
  A loop that keeps the first smallest candidate: step \<open>j\<close> skips, or offers the
  candidate \<open>c j\<close> at the distance \<open>d j\<close>.
\<close>

lemma scan_min:
  fixes s0 :: "'p found"
  assumes body: "\<And>j s. j < m \<Longrightarrow> body j s =
      (None, if skip j then s
             else if d j < d2_min s \<or> d2_min s < 0
                  then \<lparr> p_found = c j, j_found = j, d2_min = d j \<rparr> else s)"
    and d: "\<And>j. j < m \<Longrightarrow> 0 \<le> d j"
    and s0: "d2_min s0 < 0"
  shows "\<exists>s. for_loop [0..<m] body s0 = (None, s) \<and>
           (if \<forall>j<m. skip j then s = s0
            else j_found s < m \<and> \<not> skip (j_found s) \<and> p_found s = c (j_found s) \<and>
                 d2_min s = d (j_found s) \<and>
                 (\<forall>k<m. \<not> skip k \<longrightarrow> d (j_found s) \<le> d k) \<and>
                 (\<forall>k<j_found s. \<not> skip k \<longrightarrow> d (j_found s) < d k))"
  using body d
proof (induction m)
  case 0
  then show ?case by simp
next
  case (Suc m)
  have "\<exists>s. for_loop [0..<m] body s0 = (None, s) \<and>
           (if \<forall>j<m. skip j then s = s0
            else j_found s < m \<and> \<not> skip (j_found s) \<and> p_found s = c (j_found s) \<and>
                 d2_min s = d (j_found s) \<and>
                 (\<forall>k<m. \<not> skip k \<longrightarrow> d (j_found s) \<le> d k) \<and>
                 (\<forall>k<j_found s. \<not> skip k \<longrightarrow> d (j_found s) < d k))"
    by (rule Suc.IH) (use Suc.prems in auto)
  then obtain s where run: "for_loop [0..<m] body s0 = (None, s)"
    and inv: "if \<forall>j<m. skip j then s = s0
            else j_found s < m \<and> \<not> skip (j_found s) \<and> p_found s = c (j_found s) \<and>
                 d2_min s = d (j_found s) \<and>
                 (\<forall>k<m. \<not> skip k \<longrightarrow> d (j_found s) \<le> d k) \<and>
                 (\<forall>k<j_found s. \<not> skip k \<longrightarrow> d (j_found s) < d k)"
    by blast
  define s' where "s' = (if skip m then s
             else if d m < d2_min s \<or> d2_min s < 0
                  then \<lparr> p_found = c m, j_found = m, d2_min = d m \<rparr> else s)"
  have step: "body m s = (None, s')" using Suc.prems(1)[of m s] by (simp add: s'_def)
  have run': "for_loop [0..<Suc m] body s0 = (None, s')"
    unfolding for_loop_upt_Suc using run step by simp
  have dm: "0 \<le> d m" using Suc.prems(2) by simp
  show ?case
  proof (cases "\<forall>j<m. skip j")
    case True
    with inv have s: "s = s0" by simp
    show ?thesis
    proof (cases "skip m")
      case True
      with \<open>\<forall>j<m. skip j\<close> have "\<forall>j<Suc m. skip j" using less_Suc_eq by auto
      with run' s True show ?thesis by (simp add: s'_def)
    next
      case False
      then have "s' = \<lparr> p_found = c m, j_found = m, d2_min = d m \<rparr>"
        using s s0 by (simp add: s'_def)
      with run' False True show ?thesis
        by (auto simp: less_Suc_eq)
    qed
  next
    case False
    with inv have a: "j_found s < m" "\<not> skip (j_found s)" "p_found s = c (j_found s)"
      "d2_min s = d (j_found s)" "\<forall>k<m. \<not> skip k \<longrightarrow> d (j_found s) \<le> d k"
      "\<forall>k<j_found s. \<not> skip k \<longrightarrow> d (j_found s) < d k" by auto
    have nonneg: "\<not> d2_min s < 0" using a(1,4) Suc.prems(2)[of "j_found s"] by simp
    from False have ex: "\<not> (\<forall>j<Suc m. skip j)" using less_Suc_eq by auto
    show ?thesis
    proof (cases "\<not> skip m \<and> d m < d2_min s")
      case True
      then have s': "s' = \<lparr> p_found = c m, j_found = m, d2_min = d m \<rparr>" by (simp add: s'_def)
      have "\<forall>k<Suc m. \<not> skip k \<longrightarrow> d m \<le> d k"
        using a(4,5) True by (auto simp: less_Suc_eq)
      moreover have "\<forall>k<m. \<not> skip k \<longrightarrow> d m < d k"
        using a(4,5) True by fastforce
      ultimately show ?thesis using run' s' True ex by auto
    next
      case False
      then have s': "s' = s" using nonneg by (auto simp: s'_def)
      have "\<forall>k<Suc m. \<not> skip k \<longrightarrow> d (j_found s) \<le> d k"
        using a(4,5) False by (auto simp: less_Suc_eq)
      then show ?thesis using run' s' a ex by auto
    qed
  qed
qed

lemma for_loop_no_error:
  assumes "\<And>i s. i \<in> set is \<Longrightarrow> fst (body i s) = None"
  shows "fst (for_loop is body s) = None"
  using assms
proof (induction "is" arbitrary: s)
  case Nil
  then show ?case by simp
next
  case (Cons i "is")
  obtain e s1 where b: "body i s = (e, s1)" by (cases "body i s")
  with Cons.prems[of i s] have "e = None" by simp
  with b Cons show ?case by simp
qed

lemma for_loop_error:
  assumes "for_loop is body s = (Some e, s')" and "P s"
    and "\<And>i s s'. i \<in> set is \<Longrightarrow> P s \<Longrightarrow> body i s = (None, s') \<Longrightarrow> P s'"
  shows "\<exists>i s0. i \<in> set is \<and> P s0 \<and> body i s0 = (Some e, s')"
  using assms
proof (induction "is" arbitrary: s)
  case Nil
  then show ?case by simp
next
  case (Cons i "is")
  obtain e1 s1 where b: "body i s = (e1, s1)" by (cases "body i s")
  show ?case
  proof (cases e1)
    case None
    with b Cons.prems(1) have run: "for_loop is body s1 = (Some e, s')" by simp
    have "P s1" using Cons.prems(2,3) b None by (meson list.set_intros(1))
    from Cons.IH[OF run this] Cons.prems(3) show ?thesis by (meson list.set_intros(2))
  next
    case (Some a)
    with b Cons.prems(1) have "body i s = (Some e, s')" by simp
    with Cons.prems(2) show ?thesis by (meson list.set_intros(1))
  qed
qed

lemma clear_is_empty: "clear st = empty_surface"
  by (simp add: clear_def empty_surface_def)

lemma for_loop_preserves:
  assumes "P s" and "for_loop xs body s = (None, s')"
    and "\<And>x s s'. x \<in> set xs \<Longrightarrow> P s \<Longrightarrow> body x s = (None, s') \<Longrightarrow> P s'"
  shows "P s'"
  using assms
proof (induction xs arbitrary: s)
  case Nil
  then show ?case by simp
next
  case (Cons x xs)
  from Cons.prems(2) obtain s1 where s1: "body x s = (None, s1)" "for_loop xs body s1 = (None, s')"
    by (auto split: prod.splits option.splits)
  have "P s1" using Cons.prems(1,3) s1(1) by (meson list.set_intros(1))
  then show ?case using Cons.IH[OF _ s1(2)] Cons.prems(3) by (meson list.set_intros(2))
qed

lemma for_loop_stops_at_first:
  assumes "\<And>i s. i \<in> set is \<Longrightarrow> body i s = (if bad i then (Some (err i), s) else (None, s))"
  shows "for_loop is body s =
     (case find bad is of None \<Rightarrow> (None, s) | Some i \<Rightarrow> (Some (err i), s))"
  using assms by (induction "is") auto

lemma for_loop_all_ok:
  assumes "P s"
    and "\<And>i s. i \<in> set is \<Longrightarrow> P s \<Longrightarrow> \<exists>s'. body i s = (None, s') \<and> P s'"
  shows "\<exists>s'. for_loop is body s = (None, s') \<and> P s'"
  using assms
proof (induction "is" arbitrary: s)
  case Nil
  then show ?case by simp
next
  case (Cons i "is")
  from Cons.prems obtain s1 where s1: "body i s = (None, s1)" "P s1" by (meson list.set_intros(1))
  from Cons.IH[OF s1(2)] Cons.prems(2) obtain s' where "for_loop is body s1 = (None, s')" "P s'"
    by (meson list.set_intros(2))
  with s1 show ?case by auto
qed

lemma find_upt_None: "find P [0..<n] = None \<longleftrightarrow> (\<forall>i<n. \<not> P i)"
  by (auto simp: find_None_iff)

lemma find_upt_Some: "find P [0..<n] = Some i \<longleftrightarrow> i < n \<and> P i \<and> (\<forall>k<i. \<not> P k)"
  by (auto simp: find_Some_iff)

section \<open>The unit triangle, evaluated\<close>

lemma sqrt_gt_3sqrt: "0 \<le> y \<Longrightarrow> (3 * sqrt y < sqrt x) = (9 * y < x)"
proof -
  have "3 * sqrt y = sqrt (9 * y)" by (simp add: real_sqrt_mult)
  then show ?thesis by simp
qed

lemma reinit_unit: "reinit (0, 0, 0) (1, 0, 0) (0, 1, 0) = unit_triangle"
  by (simp add: reinit_def calculate_normal_and_area_def norm3_def norm_square3_def Let_def
      unit_triangle_def)

lemma preprocess_unit_surface: "preprocess unit_surface = (None, unit_store)"
  apply (simp add: preprocess_def unit_surface_def preprocess_step_def resize_field_def resize_def
      assign_def reinit_unit Let_def)
  apply (simp add: unit_triangle_def unit_store_def origin3_def)
  done







section \<open>Values of interpolate\<close>

lemma interpolate_step_pointwise:
  "interpolate_step st ft f pts markers i tv =
     (case (if length markers \<le> i then Inl OutOfBounds
            else if \<not> markers ! i then Inr (tv ! i)
            else (case locate (triangle_cache st) (length (triangles st)) (pts ! i) of
                    Inl e \<Rightarrow> Inl e
                  | Inr s \<Rightarrow> reconstruct st ft f s (tv ! i))) of
        Inl e \<Rightarrow> (Some e, tv)
      | Inr v \<Rightarrow> (None, tv[i := v]))"
  by (simp add: interpolate_step_def split: sum.splits)

lemma interpolate_marked:
  assumes run: "interpolate st ft name pts markers tv = (None, out)"
    and i: "i < length pts" and marked: "markers ! i"
  shows "\<exists>f s. field st ft name = Inr f \<and>
           locate (triangle_cache st) (length (triangles st)) (pts ! i) = Inr s \<and>
           reconstruct st ft f s (Some 0) = Inr (out ! i)"
proof -
  from run obtain f where f: "field st ft name = Inr f"
    and loop: "for_loop [0..<length pts] (interpolate_step st ft f pts markers)
                 (replicate (length pts) (Some 0)) = (None, out)"
    by (auto simp: interpolate_def Let_def split: sum.splits)
  define g where "g = (\<lambda>i old. if length markers \<le> i then Inl OutOfBounds
            else if \<not> markers ! i then Inr old
            else (case locate (triangle_cache st) (length (triangles st)) (pts ! i) of
                    Inl e \<Rightarrow> Inl e
                  | Inr s \<Rightarrow> reconstruct st ft f s old))"
  have "length out = length (replicate (length pts) (Some (0::real))) \<and>
        (\<forall>i<length pts. g i (replicate (length pts) (Some 0) ! i) = Inr (out ! i)) \<and>
        (\<forall>i\<ge>length pts. out ! i = replicate (length pts) (Some 0) ! i)"
    by (rule for_loop_pointwise[OF _ loop]) (simp_all add: interpolate_step_pointwise g_def)
  with i have "g i (Some 0) = Inr (out ! i)" by simp
  with marked f show ?thesis
    by (auto simp: g_def split: if_splits sum.splits)
qed




section \<open>Unmarked points\<close>

lemma unmarked_zero_update:
  "markers ! i \<Longrightarrow> unmarked_zero n markers tv \<Longrightarrow> unmarked_zero n markers (tv[i := v])"
  unfolding unmarked_zero_def by (metis length_list_update nth_list_update_neq)

lemma interpolate_step_unmarked:
  "unmarked_zero n markers tv \<Longrightarrow>
   unmarked_zero n markers (snd (interpolate_step st ft f pts markers i tv))"
  by (auto simp: interpolate_step_def unmarked_zero_update split: sum.splits)

lemma interpolate2d_step_unmarked:
  "unmarked_zero n markers tv \<Longrightarrow>
   unmarked_zero n markers (snd (interpolate2d_step st f pts markers i tv))"
  by (auto simp: interpolate2d_step_def unmarked_zero_update split: sum.splits prod.splits option.splits)

lemma interpolate_unmarked:
  assumes "field st ft name = Inr f"
  shows "unmarked_zero (length pts) markers (snd (interpolate st ft name pts markers tv))"
proof -
  have "unmarked_zero (length pts) markers (replicate (length pts) (Some 0))"
    by (simp add: unmarked_zero_def)
  then have "unmarked_zero (length pts) markers
     (snd (for_loop [0..<length pts] (interpolate_step st ft f pts markers)
             (replicate (length pts) (Some 0))))"
    by (rule for_loop_invariant) (rule interpolate_step_unmarked)
  with assms show ?thesis by (simp add: interpolate_def Let_def)
qed

lemma interpolate2d_unmarked:
  assumes "field2d st name = Inr f"
  shows "unmarked_zero (length pts) markers (snd (interpolate2d st name pts markers tv))"
proof -
  have "unmarked_zero (length pts) markers (replicate (length pts) (Some 0))"
    by (simp add: unmarked_zero_def)
  then have "unmarked_zero (length pts) markers
     (snd (for_loop [0..<length pts] (interpolate2d_step st f pts markers)
             (replicate (length pts) (Some 0))))"
    by (rule for_loop_invariant) (rule interpolate2d_step_unmarked)
  with assms show ?thesis by (simp add: interpolate2d_def Let_def)
qed

text \<open>
  C8. In every call of \<^verbatim>\<open>interpolate\<close>, in 3D and in 2D and in the overloads that convert
  the target points first, that gets past the lookup of the field (the calls that reach
  \<^verbatim>\<open>target_values.reinit\<close>), the output vector has the length of the target point
  sequence and holds zero at every index whose marker is false; this also when the call
  ends in an exception at a later point.
\<close>

theorem interpolate_only_marked:
  "(field st field_type field_name = Inr source_field \<longrightarrow>
      length (snd (interpolate st field_type field_name target_points markers target_values))
        = length target_points \<and>
      (\<forall>i<length target_points. \<not> markers ! i \<longrightarrow>
         snd (interpolate st field_type field_name target_points markers target_values) ! i = Some 0) \<and>
      length (snd (interpolate_rz st field_type field_name target_points_rz markers target_values))
        = length target_points_rz \<and>
      (\<forall>i<length target_points_rz. \<not> markers ! i \<longrightarrow>
         snd (interpolate_rz st field_type field_name target_points_rz markers target_values) ! i = Some 0)) \<and>
   (field2d st2 field_name2 = Inr source_field2 \<longrightarrow>
      length (snd (interpolate2d st2 field_name2 target_points2 markers2 target_values2))
        = length target_points2 \<and>
      (\<forall>i<length target_points2. \<not> markers2 ! i \<longrightarrow>
         snd (interpolate2d st2 field_name2 target_points2 markers2 target_values2) ! i = Some 0) \<and>
      length (snd (interpolate2d_xyz st2 field_name2 target_points_xyz markers2 target_values2))
        = length target_points_xyz \<and>
      (\<forall>i<length target_points_xyz. \<not> markers2 ! i \<longrightarrow>
         snd (interpolate2d_xyz st2 field_name2 target_points_xyz markers2 target_values2) ! i = Some 0))"
proof -
  have a: "unmarked_zero (length pts) markers (snd (interpolate st field_type field_name pts markers target_values))"
    if "field st field_type field_name = Inr source_field" for pts
    using that by (rule interpolate_unmarked)
  have b: "unmarked_zero (length pts) markers2 (snd (interpolate2d st2 field_name2 pts markers2 target_values2))"
    if "field2d st2 field_name2 = Inr source_field2" for pts
    using that by (rule interpolate2d_unmarked)
  show ?thesis
    using a[of target_points] a[of "map (\<lambda>(r, z). (r, 0, z)) target_points_rz"]
      b[of target_points2] b[of "map (\<lambda>(x, y, z). (sqrt (x * x + y * y), z)) target_points_xyz"]
    by (simp add: unmarked_zero_def interpolate_rz_def interpolate2d_xyz_def)
qed


theorem interpolate_only_marked_witness:
  "field unit_store CellField ''f'' = Inr [5] \<and>
   length (snd (interpolate unit_store CellField ''f'' [(1 / 4, 1 / 4, 0), (7, 7, 7)] [True, False] []))
     = length [(1 / 4, 1 / 4, 0) :: point3, (7, 7, 7)] \<and>
   snd (interpolate unit_store CellField ''f'' [(1 / 4, 1 / 4, 0), (7, 7, 7)] [True, False] []) ! 1 = Some 0 \<and>
   field2d polyline ''q'' = Inr [0, 10, 20] \<and>
   length (snd (interpolate2d polyline ''q'' [(3 / 2, 0), (9, 9)] [True, False] []))
     = length [(3 / 2, 0) :: point2, (9, 9)] \<and>
   snd (interpolate2d polyline ''q'' [(3 / 2, 0), (9, 9)] [True, False] []) ! 1 = Some 0"
proof -
  have f3: "field unit_store CellField ''f'' = Inr [5]"
    by (simp add: field_def unit_store_def)
  have f2: "field2d polyline ''q'' = Inr [0, 10, 20]"
    by (simp add: field2d_def polyline_def)
  note frame = interpolate_only_marked[of unit_store CellField "''f''" "[5]"
      "[(1 / 4, 1 / 4, 0), (7, 7, 7)]" "[True, False]" "[]" "[]"
      polyline "''q''" "[0, 10, 20]" "[(3 / 2, 0), (9, 9)]" "[True, False]" "[]" "[]"]
  from frame[THEN conjunct1, THEN mp, OF f3]
  have a: "length (snd (interpolate unit_store CellField ''f'' [(1 / 4, 1 / 4, 0), (7, 7, 7)] [True, False] []))
     = length [(1 / 4, 1 / 4, 0) :: point3, (7, 7, 7)]"
    and b: "\<forall>i<length [(1 / 4, 1 / 4, 0) :: point3, (7, 7, 7)]. \<not> [True, False] ! i \<longrightarrow>
      snd (interpolate unit_store CellField ''f'' [(1 / 4, 1 / 4, 0), (7, 7, 7)] [True, False] []) ! i = Some 0"
    by blast+
  from frame[THEN conjunct2, THEN mp, OF f2]
  have c: "length (snd (interpolate2d polyline ''q'' [(3 / 2, 0), (9, 9)] [True, False] []))
     = length [(3 / 2, 0) :: point2, (9, 9)]"
    and d: "\<forall>i<length [(3 / 2, 0) :: point2, (9, 9)]. \<not> [True, False] ! i \<longrightarrow>
      snd (interpolate2d polyline ''q'' [(3 / 2, 0), (9, 9)] [True, False] []) ! i = Some 0"
    by blast+
  from b have b1: "snd (interpolate unit_store CellField ''f'' [(1 / 4, 1 / 4, 0), (7, 7, 7)] [True, False] []) ! 1 = Some 0"
    by simp
  from d have d1: "snd (interpolate2d polyline ''q'' [(3 / 2, 0), (9, 9)] [True, False] []) ! 1 = Some 0"
    by simp
  from f3 f2 a b1 c d1 show ?thesis by blast
qed

section \<open>Selection of the triangle\<close>

lemma distance_le_iff: "distance a p \<le> distance b q \<longleftrightarrow> distance2 a p \<le> distance2 b q"
  by (simp add: distance_def distance2_def norm3_def)

lemma distance_less_iff: "distance a p < distance b q \<longleftrightarrow> distance2 a p < distance2 b q"
  by (simp add: distance_def distance2_def norm3_def)

lemma search_step_eq:
  "j < length cache \<Longrightarrow> search_step pruning cache p j s =
     (None, if pruning \<and> pruned (cache ! j) p then s
            else if distance2 (cache ! j) p < d2_min s \<or> d2_min s < 0
                 then \<lparr> p_found = closest_triangle_point (cache ! j) p, j_found = j,
                        d2_min = distance2 (cache ! j) p \<rparr>
                 else s)"
  by (simp add: search_step_def pruned_def distance2_def Let_def)

lemma scan_pass:
  assumes n: "n \<le> length cache"
  shows "\<exists>s. for_loop [0..<n] (search_step pruning cache p)
                \<lparr> p_found = origin3, j_found = 0, d2_min = -1 \<rparr> = (None, s) \<and>
           (if \<forall>j<n. pruning \<and> pruned (cache ! j) p
            then s = \<lparr> p_found = origin3, j_found = 0, d2_min = -1 \<rparr>
            else j_found s < n \<and> \<not> (pruning \<and> pruned (cache ! j_found s) p) \<and>
                 p_found s = closest_triangle_point (cache ! j_found s) p \<and>
                 d2_min s = distance2 (cache ! j_found s) p \<and>
                 (\<forall>k<n. \<not> (pruning \<and> pruned (cache ! k) p) \<longrightarrow>
                    distance2 (cache ! j_found s) p \<le> distance2 (cache ! k) p) \<and>
                 (\<forall>k<j_found s. \<not> (pruning \<and> pruned (cache ! k) p) \<longrightarrow>
                    distance2 (cache ! j_found s) p < distance2 (cache ! k) p))"
  by (rule scan_min[where skip = "\<lambda>j. pruning \<and> pruned (cache ! j) p"
        and c = "\<lambda>j. closest_triangle_point (cache ! j) p"
        and d = "\<lambda>j. distance2 (cache ! j) p"])
     (use n in \<open>auto simp: search_step_eq distance2_def norm_square3_nonneg\<close>)

lemma scan_all:
  assumes n: "n \<le> length cache" and pos: "0 < n"
  shows "\<exists>s. for_loop [0..<n] (search_step False cache p)
                \<lparr> p_found = origin3, j_found = 0, d2_min = -1 \<rparr> = (None, s) \<and>
           j_found s < n \<and>
           p_found s = closest_triangle_point (cache ! j_found s) p \<and>
           d2_min s = distance2 (cache ! j_found s) p \<and>
           (\<forall>k<n. distance2 (cache ! j_found s) p \<le> distance2 (cache ! k) p) \<and>
           (\<forall>k<j_found s. distance2 (cache ! j_found s) p < distance2 (cache ! k) p)"
proof -
  have some: "\<not> (\<forall>j<n. False \<and> pruned (cache ! j) p)" using pos by auto
  from scan_pass[OF n, of False p] obtain s where
    "for_loop [0..<n] (search_step False cache p)
       \<lparr> p_found = origin3, j_found = 0, d2_min = -1 \<rparr> = (None, s)"
    and "if \<forall>j<n. False \<and> pruned (cache ! j) p
         then s = \<lparr> p_found = origin3, j_found = 0, d2_min = -1 \<rparr>
         else j_found s < n \<and> \<not> (False \<and> pruned (cache ! j_found s) p) \<and>
                 p_found s = closest_triangle_point (cache ! j_found s) p \<and>
                 d2_min s = distance2 (cache ! j_found s) p \<and>
                 (\<forall>k<n. \<not> (False \<and> pruned (cache ! k) p) \<longrightarrow>
                    distance2 (cache ! j_found s) p \<le> distance2 (cache ! k) p) \<and>
                 (\<forall>k<j_found s. \<not> (False \<and> pruned (cache ! k) p) \<longrightarrow>
                    distance2 (cache ! j_found s) p < distance2 (cache ! k) p)"
    by blast
  with some show ?thesis by (intro exI[of _ s]) simp
qed

lemma locate_no_triangle: "locate cache 0 p = Inl (InterpolationFailed p)"
  by (simp add: locate_def)

lemma locate_found:
  assumes n: "n \<le> length cache" and pos: "0 < n"
  shows "\<exists>s. locate cache n p = Inr s \<and> j_found s \<in> candidates cache n p \<and>
           p_found s = closest_triangle_point (cache ! j_found s) p \<and>
           d2_min s = distance2 (cache ! j_found s) p \<and>
           (\<forall>k\<in>candidates cache n p. distance2 (cache ! j_found s) p \<le> distance2 (cache ! k) p) \<and>
           (\<forall>k\<in>candidates cache n p. k < j_found s \<longrightarrow>
              distance2 (cache ! j_found s) p < distance2 (cache ! k) p)"
proof -
  let ?init = "\<lparr> p_found = origin3, j_found = 0, d2_min = -1 \<rparr> :: point3 found"
  from scan_pass[OF n, of True p] obtain s1 where
    run1: "for_loop [0..<n] (search_step True cache p) ?init = (None, s1)"
    and inv1: "if \<forall>j<n. True \<and> pruned (cache ! j) p then s1 = ?init
            else j_found s1 < n \<and> \<not> (True \<and> pruned (cache ! j_found s1) p) \<and>
                 p_found s1 = closest_triangle_point (cache ! j_found s1) p \<and>
                 d2_min s1 = distance2 (cache ! j_found s1) p \<and>
                 (\<forall>k<n. \<not> (True \<and> pruned (cache ! k) p) \<longrightarrow>
                    distance2 (cache ! j_found s1) p \<le> distance2 (cache ! k) p) \<and>
                 (\<forall>k<j_found s1. \<not> (True \<and> pruned (cache ! k) p) \<longrightarrow>
                    distance2 (cache ! j_found s1) p < distance2 (cache ! k) p)"
    by blast
  show ?thesis
  proof (cases "\<forall>j<n. pruned (cache ! j) p")
    case True
    with inv1 have s1: "s1 = ?init" by simp
    from True have cand: "candidates cache n p = {j. j < n}" by (auto simp: candidates_def)
    from scan_all[OF n pos, of p] obtain s2 where
      run2: "for_loop [0..<n] (search_step False cache p) ?init = (None, s2)"
      and inv2: "j_found s2 < n" "p_found s2 = closest_triangle_point (cache ! j_found s2) p"
        "d2_min s2 = distance2 (cache ! j_found s2) p"
        "\<forall>k<n. distance2 (cache ! j_found s2) p \<le> distance2 (cache ! k) p"
        "\<forall>k<j_found s2. distance2 (cache ! j_found s2) p < distance2 (cache ! k) p"
      by auto
    have "0 \<le> d2_min s2" using inv2(3) by (simp add: distance2_def norm_square3_nonneg)
    then have "locate cache n p = Inr s2"
      using run1 run2 s1 by (simp add: locate_def)
    with inv2 cand show ?thesis by auto
  next
    case False
    with inv1 have a: "j_found s1 < n" "\<not> pruned (cache ! j_found s1) p"
      "p_found s1 = closest_triangle_point (cache ! j_found s1) p"
      "d2_min s1 = distance2 (cache ! j_found s1) p"
      "\<forall>k<n. \<not> pruned (cache ! k) p \<longrightarrow> distance2 (cache ! j_found s1) p \<le> distance2 (cache ! k) p"
      "\<forall>k<j_found s1. \<not> pruned (cache ! k) p \<longrightarrow> distance2 (cache ! j_found s1) p < distance2 (cache ! k) p"
      by auto
    from False have cand: "candidates cache n p = {j. j < n \<and> \<not> pruned (cache ! j) p}"
      by (auto simp: candidates_def)
    have nonneg: "0 \<le> d2_min s1" using a(4) by (simp add: distance2_def norm_square3_nonneg)
    then have "locate cache n p = Inr s1"
      using run1 by (simp add: locate_def)
    with a cand show ?thesis by auto
  qed
qed

lemma exhaustive_found:
  assumes n: "n \<le> length cache" and pos: "0 < n"
  shows "\<exists>e. exhaustive_scan cache n p = Inr e \<and> j_found e < n \<and>
           p_found e = closest_triangle_point (cache ! j_found e) p \<and>
           d2_min e = distance2 (cache ! j_found e) p \<and>
           (\<forall>k<n. distance2 (cache ! j_found e) p \<le> distance2 (cache ! k) p) \<and>
           (\<forall>k<j_found e. distance2 (cache ! j_found e) p < distance2 (cache ! k) p)"
proof -
  let ?init = "\<lparr> p_found = origin3, j_found = 0, d2_min = -1 \<rparr> :: point3 found"
  from scan_all[OF n pos, of p] obtain s2 where
    run2: "for_loop [0..<n] (search_step False cache p) ?init = (None, s2)"
    and inv2: "j_found s2 < n" "p_found s2 = closest_triangle_point (cache ! j_found s2) p"
      "d2_min s2 = distance2 (cache ! j_found s2) p"
      "\<forall>k<n. distance2 (cache ! j_found s2) p \<le> distance2 (cache ! k) p"
      "\<forall>k<j_found s2. distance2 (cache ! j_found s2) p < distance2 (cache ! k) p"
    by auto
  have "0 \<le> d2_min s2" using inv2(3) by (simp add: distance2_def norm_square3_nonneg)
  then have "exhaustive_scan cache n p = Inr s2"
    using run2 by (simp add: exhaustive_scan_def)
  with inv2 show ?thesis by auto
qed

lemma locate_eq_exhaustive:
  assumes n: "n \<le> length cache"
    and s: "locate cache n p = Inr s" and e: "exhaustive_scan cache n p = Inr e"
    and surv: "j_found e \<in> candidates cache n p"
  shows "s = e"
proof -
  have pos: "0 < n" using s by (cases n) (simp_all add: locate_no_triangle)
  from locate_found[OF n pos, of p] s have a: "j_found s \<in> candidates cache n p"
    "p_found s = closest_triangle_point (cache ! j_found s) p"
    "d2_min s = distance2 (cache ! j_found s) p"
    "\<forall>k\<in>candidates cache n p. distance2 (cache ! j_found s) p \<le> distance2 (cache ! k) p"
    "\<forall>k\<in>candidates cache n p. k < j_found s \<longrightarrow>
              distance2 (cache ! j_found s) p < distance2 (cache ! k) p" by auto
  from exhaustive_found[OF n pos, of p] e have b: "j_found e < n"
    "p_found e = closest_triangle_point (cache ! j_found e) p"
    "d2_min e = distance2 (cache ! j_found e) p"
    "\<forall>k<n. distance2 (cache ! j_found e) p \<le> distance2 (cache ! k) p"
    "\<forall>k<j_found e. distance2 (cache ! j_found e) p < distance2 (cache ! k) p" by auto
  have sn: "j_found s < n" using a(1) by (auto simp: candidates_def split: if_splits)
  have "\<not> j_found e < j_found s"
    using a(5) surv b(4) sn by (meson not_less)
  moreover have "\<not> j_found s < j_found e"
    using b(5) a(4) surv by (meson not_less)
  ultimately have "j_found s = j_found e" by simp
  with a b show ?thesis by (cases s, cases e) simp
qed

lemma sqrt_81: "sqrt 81 = 9"
  by (rule real_sqrt_unique) simp_all

lemma max_sqrt: "max (sqrt a) (sqrt b) = sqrt (max a b)"
  by (simp add: max_def)

lemma max_3_sqrt_18: "max 3 (sqrt 18) = sqrt 18"
proof -
  have "3 \<le> sqrt 18" by (rule real_le_rsqrt) simp
  then show ?thesis by simp
qed

lemma reinit_near: "reinit (0, 0, 1) (1, 0, 1) (0, 1, 1) = near_triangle"
  by (simp add: reinit_def calculate_normal_and_area_def norm3_def norm_square3_def Let_def
      near_triangle_def)

lemma reinit_far: "reinit (0, 0, -4) (3, 0, -4) (0, 3, -4) = far_triangle"
  by (simp add: reinit_def calculate_normal_and_area_def norm3_def norm_square3_def Let_def
      far_triangle_def sqrt_81 max_3_sqrt_18)

lemma preprocess_pruning_surface: "preprocess pruning_surface = (None, pruning_store)"
  apply (simp add: preprocess_def pruning_surface_def preprocess_step_def resize_field_def resize_def
      assign_def reinit_near reinit_far Let_def upt_rec)
  apply (simp add: near_triangle_def far_triangle_def pruning_store_def origin3_def)
  done

lemma closest_near: "closest_triangle_point near_triangle (0, 0, 6) = (0, 0, 1)"
  by (simp add: closest_triangle_point_def near_triangle_def project_to_triangle_plane_def
      barycentric_coordinates_def signed_area_def Let_def)

lemma closest_far: "closest_triangle_point far_triangle (0, 0, 6) = (0, 0, -4)"
  by (simp add: closest_triangle_point_def far_triangle_def project_to_triangle_plane_def
      barycentric_coordinates_def signed_area_def Let_def)

lemma pruned_near: "pruned near_triangle (0, 0, 6)"
  by (simp add: pruned_def near_triangle_def norm3_def norm_square3_def sqrt_gt_3sqrt)

lemma not_pruned_far: "\<not> pruned far_triangle (0, 0, 6)"
  by (simp add: pruned_def far_triangle_def norm3_def norm_square3_def sqrt_gt_3sqrt)

lemma distance2_near: "distance2 near_triangle (0, 0, 6) = 25"
  by (simp add: distance2_def closest_near norm_square3_def)

lemma distance2_far: "distance2 far_triangle (0, 0, 6) = 100"
  by (simp add: distance2_def closest_far norm_square3_def)

lemma locate_pruning:
  "locate [near_triangle, far_triangle] (Suc (Suc 0)) (0, 0, 6) =
     Inr \<lparr> p_found = (0, 0, -4), j_found = 1, d2_min = 100 \<rparr>"
  by (simp add: locate_def upt_rec search_step_eq pruned_near not_pruned_far distance2_far closest_far)

lemma exhaustive_pruning:
  "exhaustive_scan [near_triangle, far_triangle] (Suc (Suc 0)) (0, 0, 6) =
     Inr \<lparr> p_found = (0, 0, 1), j_found = 0, d2_min = 25 \<rparr>"
  by (simp add: exhaustive_scan_def upt_rec search_step_eq distance2_far distance2_near closest_near)

lemma interpolate_pruning:
  "interpolate pruning_store CellField ''f'' [(0, 0, 6)] [True] tv = (None, [Some 2])"
  by (simp add: interpolate_def field_def interpolate_step_def pruning_store_def locate_pruning
      reconstruct_def)

text \<open>
  C1. For a marked target point of a call that returns, on a store whose
  triangle cache covers its triangles, the triangle that \<^verbatim>\<open>interpolate\<close> reconstructs
  the value from is the one of lowest index at the least Euclidean distance among the
  candidates: the triangles that survive the pruning when one does, all the triangles
  otherwise. It is the triangle of the plain exhaustive scan whenever that one is a
  candidate.
\<close>

theorem interpolate_uses_nearest_candidate:
  assumes "interpolate st field_type field_name target_points markers target_values = (None, out)"
    and "i < length target_points" and "markers ! i"
    and "length (triangles st) \<le> length (triangle_cache st)"
  shows "\<exists>source_field s.
           field st field_type field_name = Inr source_field \<and>
           locate (triangle_cache st) (length (triangles st)) (target_points ! i) = Inr s \<and>
           reconstruct st field_type source_field s (Some 0) = Inr (out ! i) \<and>
           j_found s \<in> candidates (triangle_cache st) (length (triangles st)) (target_points ! i) \<and>
           p_found s = closest_triangle_point (triangle_cache st ! j_found s) (target_points ! i) \<and>
           (\<forall>k\<in>candidates (triangle_cache st) (length (triangles st)) (target_points ! i).
              distance (triangle_cache st ! j_found s) (target_points ! i)
                \<le> distance (triangle_cache st ! k) (target_points ! i)) \<and>
           (\<forall>k\<in>candidates (triangle_cache st) (length (triangles st)) (target_points ! i).
              k < j_found s \<longrightarrow>
              distance (triangle_cache st ! j_found s) (target_points ! i)
                < distance (triangle_cache st ! k) (target_points ! i)) \<and>
           (\<forall>e. exhaustive_scan (triangle_cache st) (length (triangles st)) (target_points ! i) = Inr e \<and>
                j_found e \<in> candidates (triangle_cache st) (length (triangles st)) (target_points ! i)
                \<longrightarrow> s = e)"
proof -
  let ?cache = "triangle_cache st" and ?n = "length (triangles st)" and ?p = "target_points ! i"
  from interpolate_marked[OF assms(1-3)] obtain f s where
    f: "field st field_type field_name = Inr f"
    and s: "locate ?cache ?n ?p = Inr s"
    and v: "reconstruct st field_type f s (Some 0) = Inr (out ! i)" by blast
  have pos: "0 < ?n" using s by (cases ?n) (simp_all add: locate_no_triangle)
  from locate_found[OF assms(4) pos, of ?p] s have a: "j_found s \<in> candidates ?cache ?n ?p"
    "p_found s = closest_triangle_point (?cache ! j_found s) ?p"
    "\<forall>k\<in>candidates ?cache ?n ?p. distance2 (?cache ! j_found s) ?p \<le> distance2 (?cache ! k) ?p"
    "\<forall>k\<in>candidates ?cache ?n ?p. k < j_found s \<longrightarrow>
              distance2 (?cache ! j_found s) ?p < distance2 (?cache ! k) ?p" by auto
  have b: "\<forall>e. exhaustive_scan ?cache ?n ?p = Inr e \<and> j_found e \<in> candidates ?cache ?n ?p \<longrightarrow> s = e"
    using locate_eq_exhaustive[OF assms(4) s] by blast
  show ?thesis
    by (rule exI[of _ f], rule exI[of _ s])
       (use f s v a b in \<open>simp add: distance_le_iff distance_less_iff\<close>)
qed

theorem interpolate_uses_nearest_candidate_witness:
  "interpolate pruning_store CellField ''f'' [(0, 0, 6)] [True] [] = (None, [Some 2]) \<and>
   (0::nat) < length [(0, 0, 6) :: point3] \<and> [True] ! 0 \<and>
   length (triangles pruning_store) \<le> length (triangle_cache pruning_store) \<and>
   (\<exists>s. locate (triangle_cache pruning_store) (length (triangles pruning_store)) ([(0, 0, 6)] ! 0) = Inr s \<and>
        j_found s \<in> candidates (triangle_cache pruning_store) (length (triangles pruning_store)) ([(0, 0, 6)] ! 0) \<and>
        (\<forall>k\<in>candidates (triangle_cache pruning_store) (length (triangles pruning_store)) ([(0, 0, 6)] ! 0).
           distance (triangle_cache pruning_store ! j_found s) ([(0, 0, 6)] ! 0)
             \<le> distance (triangle_cache pruning_store ! k) ([(0, 0, 6)] ! 0)))"
proof -
  have run: "interpolate pruning_store CellField ''f'' [(0, 0, 6)] [True] [] = (None, [Some 2])"
    by (rule interpolate_pruning)
  have i: "(0::nat) < length [(0, 0, 6) :: point3]" by simp
  have m: "[True] ! 0" by simp
  have c: "length (triangles pruning_store) \<le> length (triangle_cache pruning_store)"
    by (simp add: pruning_store_def)
  from interpolate_uses_nearest_candidate[OF run i m c] run i m c show ?thesis by blast
qed

text \<open>
  The pruning pass does not always select the triangle of the plain exhaustive scan. On
  the surface of two triangles \<open>pruning_surface\<close>, at the target point \<open>(0, 0, 6)\<close>, the
  small triangle 0 is at the distance 5 and is pruned, and the large triangle 1 at the
  distance 10 is selected, where the exhaustive scan selects triangle 0.
\<close>

theorem pruning_changes_selection:
  "preprocess pruning_surface = (None, pruning_store) \<and>
   locate (triangle_cache pruning_store) (length (triangles pruning_store)) (0, 0, 6) =
     Inr \<lparr> p_found = (0, 0, -4), j_found = 1, d2_min = 100 \<rparr> \<and>
   exhaustive_scan (triangle_cache pruning_store) (length (triangles pruning_store)) (0, 0, 6) =
     Inr \<lparr> p_found = (0, 0, 1), j_found = 0, d2_min = 25 \<rparr> \<and>
   distance (triangle_cache pruning_store ! 0) (0, 0, 6) = 5 \<and>
   distance (triangle_cache pruning_store ! 1) (0, 0, 6) = 10 \<and>
   interpolate pruning_store CellField ''f'' [(0, 0, 6)] [True] [] = (None, [Some 2])"
proof -
  have "sqrt 25 = 5" "sqrt 100 = 10" by (rule real_sqrt_unique; simp)+
  then have "distance near_triangle (0, 0, 6) = 5" "distance far_triangle (0, 0, 6) = 10"
    using distance2_near distance2_far by (simp_all add: distance_def distance2_def norm3_def)
  then show ?thesis
    using preprocess_pruning_surface locate_pruning exhaustive_pruning interpolate_pruning
    by (simp add: pruning_store_def)
qed

section \<open>Failure of the search\<close>

lemma interpolate_no_triangles:
  assumes f: "field st ft name = Inr f" and empty: "triangles st = []"
    and markers: "length pts \<le> length markers"
  shows "interpolate st ft name pts markers tv =
     (case find (\<lambda>i. markers ! i) [0..<length pts] of
        None \<Rightarrow> (None, replicate (length pts) (Some 0))
      | Some i \<Rightarrow> (Some (InterpolationFailed (pts ! i)), replicate (length pts) (Some 0)))"
proof -
  have "for_loop [0..<length pts] (interpolate_step st ft f pts markers) (replicate (length pts) (Some 0)) =
     (case find (\<lambda>i. markers ! i) [0..<length pts] of
        None \<Rightarrow> (None, replicate (length pts) (Some 0))
      | Some i \<Rightarrow> (Some (InterpolationFailed (pts ! i)), replicate (length pts) (Some 0)))"
    by (rule for_loop_stops_at_first)
       (use empty markers in \<open>auto simp: interpolate_step_def locate_no_triangle\<close>)
  with f show ?thesis by (simp add: interpolate_def Let_def)
qed

lemma candidates_less: "0 < n \<Longrightarrow> j \<in> candidates cache n p \<Longrightarrow> j < n"
  by (auto simp: candidates_def split: if_splits)

lemma reconstruct_ok:
  assumes wf: "well_formed st" and f: "field st ft name = Inr f"
    and j: "j_found s < length (triangles st)"
  shows "\<exists>v. reconstruct st ft f s old = Inr v"
proof (cases ft)
  case CellField
  with f wf have "length f = length (triangles st)"
    by (auto simp: field_def well_formed_def split: option.splits)
  with j CellField show ?thesis by (simp add: reconstruct_def)
next
  case PointField
  with f wf have len: "length f = length (points st)"
    by (auto simp: field_def well_formed_def split: option.splits)
  obtain v0 v1 v2 where t: "triangles st ! j_found s = (v0, v1, v2)"
    by (cases "triangles st ! j_found s")
  have "triangles st ! j_found s \<in> set (triangles st)" using j by simp
  with wf t have "v0 < length (points st) \<and> v1 < length (points st) \<and> v2 < length (points st)"
    by (fastforce simp: well_formed_def)
  moreover have "j_found s < length (triangle_cache st)" using wf j by (simp add: well_formed_def)
  ultimately show ?thesis
    using PointField t j len by (cases old) (auto simp: reconstruct_def split: option.splits)
qed

lemma interpolate_with_triangles:
  assumes wf: "well_formed st" and f: "field st ft name = Inr f"
    and some: "triangles st \<noteq> []" and markers: "length pts \<le> length markers"
  shows "\<exists>out. interpolate st ft name pts markers tv = (None, out)"
proof -
  have cache: "length (triangles st) \<le> length (triangle_cache st)" and pos: "0 < length (triangles st)"
    using wf some by (simp_all add: well_formed_def)
  have step: "\<exists>tv'. interpolate_step st ft f pts markers i tv = (None, tv') \<and> True"
    if "i \<in> set [0..<length pts]" for i tv
  proof (cases "markers ! i")
    case False
    with that markers show ?thesis by (simp add: interpolate_step_def)
  next
    case True
    from locate_found[OF cache pos, of "pts ! i"] obtain s where
      s: "locate (triangle_cache st) (length (triangles st)) (pts ! i) = Inr s"
      and "j_found s \<in> candidates (triangle_cache st) (length (triangles st)) (pts ! i)" by blast
    then have "j_found s < length (triangles st)" using candidates_less[OF pos] by blast
    from reconstruct_ok[OF wf f this, of "tv ! i"] obtain v where
      "reconstruct st ft f s (tv ! i) = Inr v" by blast
    with s True that markers show ?thesis by (simp add: interpolate_step_def)
  qed
  have "\<exists>out. for_loop [0..<length pts] (interpolate_step st ft f pts markers)
                (replicate (length pts) (Some 0)) = (None, out) \<and> True"
    by (rule for_loop_all_ok[where P = "\<lambda>_. True"]) (use step in auto)
  with f show ?thesis by (simp add: interpolate_def Let_def)
qed

lemma read_vtk_no_words: "read_vtk pu pd (Some []) st = (None, blank_store)"
  by (simp add: read_vtk_def extract_string_def clear_def preprocess_def resize_field_def resize_def
      blank_store_def)

lemma well_formed_blank_store: "well_formed blank_store"
  by (simp add: well_formed_def blank_store_def)

lemma well_formed_unit_store: "well_formed unit_store"
  by (simp add: well_formed_def unit_store_def)

lemma search_step_error: "search_step pruning cache p j s = (Some e, s') \<Longrightarrow> e = OutOfBounds"
  by (auto simp: search_step_def Let_def split: if_splits)

lemma search_loop_error:
  "for_loop js (search_step pruning cache p) s = (Some e, s') \<Longrightarrow> e = OutOfBounds"
proof -
  assume "for_loop js (search_step pruning cache p) s = (Some e, s')"
  from for_loop_error[OF this, of "\<lambda>_. True"] obtain j s0 where
    "search_step pruning cache p j s0 = (Some e, s')" by auto
  then show ?thesis by (rule search_step_error)
qed

lemma search_step_found:
  "search_step False cache p j s = (None, s') \<Longrightarrow> 0 \<le> d2_min s'"
  by (auto simp: search_step_def Let_def norm_square3_nonneg split: if_splits)

lemma search_step_keeps:
  "search_step pruning cache p j s = (None, s') \<Longrightarrow> 0 \<le> d2_min s \<Longrightarrow> 0 \<le> d2_min s'"
  by (auto simp: search_step_def Let_def norm_square3_nonneg split: if_splits)

lemma full_scan_found:
  assumes "for_loop [0..<n] (search_step False cache p) s = (None, s')" and "0 < n"
  shows "0 \<le> d2_min s'"
proof -
  from assms(2) have upt: "[0..<n] = 0 # [1..<n]" by (simp add: upt_conv_Cons)
  from assms(1) obtain s1 where first: "search_step False cache p 0 s = (None, s1)"
    and rest: "for_loop [1..<n] (search_step False cache p) s1 = (None, s')"
    unfolding upt by (auto split: prod.splits option.splits)
  from first have "0 \<le> d2_min s1" by (rule search_step_found)
  then show ?thesis
    by (rule for_loop_preserves[where P = "\<lambda>s. 0 \<le> d2_min s", OF _ rest])
       (rule search_step_keeps)
qed

lemma locate_error:
  assumes "locate cache n p = Inl e"
  shows "e = OutOfBounds \<or> (e = InterpolationFailed p \<and> n = 0)"
proof -
  let ?s0 = "\<lparr> p_found = origin3, j_found = 0, d2_min = -1 \<rparr>"
  obtain e1 s1 where l1: "for_loop [0..<n] (search_step True cache p) ?s0 = (e1, s1)"
    by (cases "for_loop [0..<n] (search_step True cache p) ?s0")
  show ?thesis
  proof (cases e1)
    case (Some a)
    with l1 assms have "e = a" by (simp add: locate_def)
    with l1 Some search_loop_error[of "[0..<n]" True cache p ?s0 a s1] show ?thesis by simp
  next
    case None
    show ?thesis
    proof (cases "d2_min s1 < 0")
      case False
      with l1 None assms show ?thesis by (simp add: locate_def)
    next
      case True
      obtain e2 s2 where l2: "for_loop [0..<n] (search_step False cache p) s1 = (e2, s2)"
        by (cases "for_loop [0..<n] (search_step False cache p) s1")
      show ?thesis
      proof (cases e2)
        case (Some a)
        with l1 l2 None True assms have "e = a" by (simp add: locate_def)
        with l2 Some search_loop_error[of "[0..<n]" False cache p s1 a s2] show ?thesis by simp
      next
        case None2: None
        show ?thesis
        proof (cases "n = 0")
          case True0: True
          with assms show ?thesis by (simp add: locate_def split: if_splits)
        next
          case False
          with l2 None2 have "0 \<le> d2_min s2" using full_scan_found[of n cache p s1 s2] by simp
          with l1 l2 None None2 True assms show ?thesis by (simp add: locate_def)
        qed
      qed
    qed
  qed
qed

lemma reconstruct_error: "reconstruct st ft f s old = Inl e \<Longrightarrow> e = OutOfBounds"
  by (auto simp: reconstruct_def split: FieldType.splits if_splits prod.splits option.splits)

lemma interpolate_step_error:
  assumes "interpolate_step st ft f pts markers i tv = (Some e, tv')"
  shows "e = OutOfBounds \<or> (e = InterpolationFailed (pts ! i) \<and> triangles st = [])"
proof (cases "length markers \<le> i \<or> \<not> markers ! i")
  case True
  with assms show ?thesis by (auto simp: interpolate_step_def split: if_splits)
next
  case False
  show ?thesis
  proof (cases "locate (triangle_cache st) (length (triangles st)) (pts ! i)")
    case (Inl a)
    with assms False have "e = a" by (simp add: interpolate_step_def)
    with locate_error[OF Inl] show ?thesis by auto
  next
    case (Inr s)
    show ?thesis
    proof (cases "reconstruct st ft f s (tv ! i)")
      case (Inl a)
      with assms False Inr have "e = a" by (simp add: interpolate_step_def)
      with reconstruct_error[OF Inl] show ?thesis by simp
    next
      case Inr2: (Inr v)
      with assms False Inr show ?thesis by (simp add: interpolate_step_def)
    qed
  qed
qed

lemma interpolate_failed_no_triangle:
  assumes "fst (interpolate st ft name pts markers tv) = Some (InterpolationFailed p)"
  shows "triangles st = []"
proof (cases "field st ft name")
  case (Inl a)
  with assms show ?thesis by (auto simp: interpolate_def field_def split: option.splits)
next
  case (Inr f)
  obtain out where "for_loop [0..<length pts] (interpolate_step st ft f pts markers)
      (replicate (length pts) (Some 0)) = (Some (InterpolationFailed p), out)"
    using assms Inr by (cases "for_loop [0..<length pts] (interpolate_step st ft f pts markers)
      (replicate (length pts) (Some 0))") (simp add: interpolate_def Let_def)
  from for_loop_error[OF this, of "\<lambda>_. True"] obtain i s0 where
    "interpolate_step st ft f pts markers i s0 = (Some (InterpolationFailed p), out)" by auto
  from interpolate_step_error[OF this] show ?thesis by simp
qed

text \<open>
  C5. With the named field present and a marker for every target point, \<^verbatim>\<open>interpolate\<close>
  throws \<^verbatim>\<open>ExcInterpolationFailed\<close> exactly when the surface has no triangle and some
  target point is marked; the exception names the first marked point. On a well-formed
  store with at least one triangle the call returns. (The coordinates are real numbers:
  a coordinate that is not a number is outside this statement.)
\<close>

theorem interpolation_fails_iff_no_triangle:
  assumes "field st field_type field_name = Inr source_field"
    and "length markers = length target_points"
  shows "((\<exists>p. fst (interpolate st field_type field_name target_points markers target_values)
               = Some (InterpolationFailed p)) \<longleftrightarrow>
          triangles st = [] \<and> (\<exists>i<length target_points. markers ! i)) \<and>
         (\<forall>p. fst (interpolate st field_type field_name target_points markers target_values)
               = Some (InterpolationFailed p) \<longrightarrow>
              (\<exists>i<length target_points. markers ! i \<and> p = target_points ! i \<and> (\<forall>k<i. \<not> markers ! k))) \<and>
         (triangles st \<noteq> [] \<and> well_formed st \<longrightarrow>
            fst (interpolate st field_type field_name target_points markers target_values) = None)"
proof (cases "triangles st = []")
  case True
  have m: "length target_points \<le> length markers" using assms(2) by simp
  note r = interpolate_no_triangles[OF assms(1) True m, of target_values]
  show ?thesis
  proof (cases "find (\<lambda>i. markers ! i) [0..<length target_points]")
    case None
    then have "\<forall>i<length target_points. \<not> markers ! i" by (simp add: find_upt_None)
    with r None True show ?thesis by auto
  next
    case (Some i)
    then have i: "i < length target_points" "markers ! i" "\<forall>k<i. \<not> markers ! k"
      by (simp_all add: find_upt_Some)
    from r Some have e: "fst (interpolate st field_type field_name target_points markers target_values)
        = Some (InterpolationFailed (target_points ! i))" by simp
    have a: "(\<exists>p. fst (interpolate st field_type field_name target_points markers target_values)
               = Some (InterpolationFailed p)) \<longleftrightarrow>
          triangles st = [] \<and> (\<exists>i<length target_points. markers ! i)"
      using e i True by blast
    have b: "\<forall>p. fst (interpolate st field_type field_name target_points markers target_values)
               = Some (InterpolationFailed p) \<longrightarrow>
              (\<exists>i<length target_points. markers ! i \<and> p = target_points ! i \<and> (\<forall>k<i. \<not> markers ! k))"
      using e i by (metis error.inject(2) option.inject)
    from a b True show ?thesis by blast
  qed
next
  case False
  have m: "length target_points \<le> length markers" using assms(2) by simp
  have no: "fst (interpolate st field_type field_name target_points markers target_values)
               \<noteq> Some (InterpolationFailed p)" for p
    using interpolate_failed_no_triangle[of st field_type field_name target_points markers target_values p]
      False by blast
  have ok: "fst (interpolate st field_type field_name target_points markers target_values) = None"
    if "well_formed st"
  proof -
    from interpolate_with_triangles[OF that assms(1) False m, of target_values]
    obtain out where "interpolate st field_type field_name target_points markers target_values = (None, out)"
      by blast
    then show ?thesis by simp
  qed
  from no ok False show ?thesis by blast
qed

theorem interpolation_fails_iff_no_triangle_witness:
  "field blank_store CellField ''area'' = Inr [] \<and>
   length [True] = length [(1, 2, 3) :: point3] \<and>
   fst (interpolate blank_store CellField ''area'' [(1, 2, 3)] [True] [])
     = Some (InterpolationFailed (1, 2, 3)) \<and>
   triangles unit_store \<noteq> [] \<and> well_formed unit_store \<and>
   field unit_store CellField ''f'' = Inr [5] \<and>
   fst (interpolate unit_store CellField ''f'' [(1, 2, 3)] [True] []) = None \<and>
   fst (interpolate (unit_store\<lparr> triangle_cache := [] \<rparr>) CellField ''f'' [(1, 2, 3)] [True] [])
     = Some OutOfBounds"
proof -
  have f: "field blank_store CellField ''area'' = Inr []"
    by (simp add: field_def blank_store_def)
  have l: "length [True] = length [(1, 2, 3) :: point3]" by simp
  note t = interpolation_fails_iff_no_triangle[OF f l, of "[]"]
  have "triangles blank_store = [] \<and> (\<exists>i<length [(1, 2, 3) :: point3]. [True] ! i)"
    by (simp add: blank_store_def)
  with t obtain p where p: "fst (interpolate blank_store CellField ''area'' [(1, 2, 3)] [True] [])
     = Some (InterpolationFailed p)" by blast
  with t obtain i where "i < length [(1, 2, 3) :: point3]" "p = [(1, 2, 3)] ! i" by blast
  then have "p = (1, 2, 3)" by simp
  with p have a: "fst (interpolate blank_store CellField ''area'' [(1, 2, 3)] [True] [])
     = Some (InterpolationFailed (1, 2, 3))" by simp
  have g: "field unit_store CellField ''f'' = Inr [5]"
    by (simp add: field_def unit_store_def)
  have ne: "triangles unit_store \<noteq> []" by (simp add: unit_store_def)
  with interpolation_fails_iff_no_triangle[OF g l, of "[]"] well_formed_unit_store
  have b: "fst (interpolate unit_store CellField ''f'' [(1, 2, 3)] [True] []) = None" by blast
  have c: "fst (interpolate (unit_store\<lparr> triangle_cache := [] \<rparr>) CellField ''f'' [(1, 2, 3)] [True] [])
     = Some OutOfBounds"
    by (simp add: interpolate_def field_def unit_store_def interpolate_step_def locate_def
        search_step_def)
  from f l a ne well_formed_unit_store g b c show ?thesis by blast
qed

text \<open>
  Without the named field the call throws the missing-field error, also when the surface
  has no triangle and a target point is marked: so on the store that a load leaves when
  it cannot open its file.
\<close>

theorem no_triangle_and_no_field_is_field_not_found:
  "read_vtk parse_decimal parse_decimal_double None unit_store = (None, empty_surface) \<and>
   triangles empty_surface = [] \<and> [True] ! 0 \<and>
   interpolate empty_surface CellField ''f'' [(1, 2, 3)] [True] [] = (Some (FieldNotFound ''f''), [])"
  by (simp add: read_vtk_def clear_is_empty)
     (simp add: empty_surface_def interpolate_def field_def)

section \<open>Selection of the segment\<close>

lemma norm_square2_nonneg: "0 \<le> norm_square2 v"
  by (cases v) (simp add: norm_square2_def)

lemma norm2_nonneg: "0 \<le> norm2 v"
  by (simp add: norm2_def norm_square2_nonneg)

lemma norm_square2_zero_iff: "norm_square2 (sub2 b a) = 0 \<longleftrightarrow> a = b"
proof (cases a, cases b)
  fix x y u v
  assume a: "a = (x, y)" and b: "b = (u, v)"
  have "(u - x) * (u - x) + (v - y) * (v - y) = 0 \<longleftrightarrow> u - x = 0 \<and> v - y = 0"
    by (simp add: sum_squares_eq_zero_iff)
  with a b show ?thesis by (auto simp: norm_square2_def)
qed

lemma segment_step_eq:
  "j + 1 < length pts \<Longrightarrow> segment_step pts p j s =
     (None, if False then s
            else if segment_distance pts j p < d2_min s \<or> d2_min s < 0
                 then \<lparr> p_found = segment_closest pts j p, j_found = j,
                        d2_min = segment_distance pts j p \<rparr>
                 else s)"
  by (simp add: segment_step_def segment_distance_def segment_closest_def Let_def)

lemma segment_scan:
  assumes "2 \<le> length pts"
  shows "\<exists>s. for_loop [0..<length pts - 1] (segment_step pts p)
                \<lparr> p_found = origin2, j_found = 0, d2_min = -1 \<rparr> = (None, s) \<and>
           j_found s + 1 < length pts \<and>
           p_found s = segment_closest pts (j_found s) p \<and>
           (\<forall>k. k + 1 < length pts \<longrightarrow>
              segment_distance pts (j_found s) p \<le> segment_distance pts k p) \<and>
           (\<forall>k<j_found s. segment_distance pts (j_found s) p < segment_distance pts k p)"
proof -
  let ?n = "length pts - 1"
  have "0 < ?n" using assms by simp
  then have some: "\<not> (\<forall>j<?n. False)" by blast
  have "\<exists>s. for_loop [0..<?n] (segment_step pts p)
                \<lparr> p_found = origin2, j_found = 0, d2_min = -1 \<rparr> = (None, s) \<and>
           (if \<forall>j<?n. False then s = \<lparr> p_found = origin2, j_found = 0, d2_min = -1 \<rparr>
            else j_found s < ?n \<and> \<not> False \<and> p_found s = segment_closest pts (j_found s) p \<and>
                 d2_min s = segment_distance pts (j_found s) p \<and>
                 (\<forall>k<?n. \<not> False \<longrightarrow> segment_distance pts (j_found s) p \<le> segment_distance pts k p) \<and>
                 (\<forall>k<j_found s. \<not> False \<longrightarrow>
                    segment_distance pts (j_found s) p < segment_distance pts k p))"
    by (rule scan_min[where skip = "\<lambda>j. False" and c = "\<lambda>j. segment_closest pts j p"
          and d = "\<lambda>j. segment_distance pts j p"])
       (auto simp: segment_step_eq segment_distance_def norm2_nonneg)
  then obtain s where run: "for_loop [0..<?n] (segment_step pts p)
                \<lparr> p_found = origin2, j_found = 0, d2_min = -1 \<rparr> = (None, s)"
    and inv: "if \<forall>j<?n. False then s = \<lparr> p_found = origin2, j_found = 0, d2_min = -1 \<rparr>
            else j_found s < ?n \<and> \<not> False \<and> p_found s = segment_closest pts (j_found s) p \<and>
                 d2_min s = segment_distance pts (j_found s) p \<and>
                 (\<forall>k<?n. \<not> False \<longrightarrow> segment_distance pts (j_found s) p \<le> segment_distance pts k p) \<and>
                 (\<forall>k<j_found s. \<not> False \<longrightarrow>
                    segment_distance pts (j_found s) p < segment_distance pts k p)"
    by blast
  from inv some have a: "j_found s < ?n" "p_found s = segment_closest pts (j_found s) p"
      "\<forall>k<?n. segment_distance pts (j_found s) p \<le> segment_distance pts k p"
      "\<forall>k<j_found s. segment_distance pts (j_found s) p < segment_distance pts k p"
    by (auto split: if_splits)
  have "\<forall>k. k + 1 < length pts \<longrightarrow> segment_distance pts (j_found s) p \<le> segment_distance pts k p"
    using a(3) by (simp add: less_diff_conv)
  with run a show ?thesis by (intro exI[of _ s]) (simp add: less_diff_conv)
qed

lemma segment_scan_short:
  assumes "length pts < 2"
  shows "for_loop [0..<length pts - 1] (segment_step pts p) s = (None, s)"
proof -
  have "length pts - 1 = 0" using assms by simp
  then show ?thesis by simp
qed

lemma interpolate2d_step_pointwise:
  "interpolate2d_step st f pts markers i tv =
     (case (if length markers \<le> i then Inl OutOfBounds
            else if \<not> markers ! i then Inr (tv ! i)
            else (case for_loop [0..<length (points2d st) - 1]
                         (segment_step (points2d st) (pts ! i))
                         \<lparr> p_found = origin2, j_found = 0, d2_min = -1 \<rparr> of
                    (Some e, s) \<Rightarrow> Inl e
                  | (None, s) \<Rightarrow> blend2d (points2d st) f s (tv ! i))) of
        Inl e \<Rightarrow> (Some e, tv)
      | Inr v \<Rightarrow> (None, tv[i := v]))"
  by (simp add: interpolate2d_step_def split: sum.splits prod.splits option.splits)

lemma interpolate2d_marked:
  assumes run: "interpolate2d st name pts markers tv = (None, out)"
    and i: "i < length pts" and marked: "markers ! i"
  shows "\<exists>f s. field2d st name = Inr f \<and>
           for_loop [0..<length (points2d st) - 1] (segment_step (points2d st) (pts ! i))
             \<lparr> p_found = origin2, j_found = 0, d2_min = -1 \<rparr> = (None, s) \<and>
           blend2d (points2d st) f s (Some 0) = Inr (out ! i)"
proof -
  from run obtain f where f: "field2d st name = Inr f"
    and loop: "for_loop [0..<length pts] (interpolate2d_step st f pts markers)
                 (replicate (length pts) (Some 0)) = (None, out)"
    by (auto simp: interpolate2d_def Let_def split: sum.splits)
  define g where "g = (\<lambda>i old. if length markers \<le> i then Inl OutOfBounds
            else if \<not> markers ! i then Inr old
            else (case for_loop [0..<length (points2d st) - 1]
                         (segment_step (points2d st) (pts ! i))
                         \<lparr> p_found = origin2, j_found = 0, d2_min = -1 \<rparr> of
                    (Some e, s) \<Rightarrow> Inl e
                  | (None, s) \<Rightarrow> blend2d (points2d st) f s old))"
  have "length out = length (replicate (length pts) (Some (0::real))) \<and>
        (\<forall>i<length pts. g i (replicate (length pts) (Some 0) ! i) = Inr (out ! i)) \<and>
        (\<forall>i\<ge>length pts. out ! i = replicate (length pts) (Some 0) ! i)"
    by (rule for_loop_pointwise[OF _ loop]) (simp_all add: interpolate2d_step_pointwise g_def)
  with i have "g i (Some 0) = Inr (out ! i)" by simp
  with marked f show ?thesis
    by (auto simp: g_def split: if_splits sum.splits prod.splits option.splits)
qed

lemma barycentric_of_closest:
  "barycentric_coordinates2 (closest_segment_point2 p a b) a b =
     (if a = b then None else Some (1 - clamped_parameter p a b, clamped_parameter p a b))"
proof (cases "a = b")
  case True
  then show ?thesis
    by (simp add: barycentric_coordinates2_def norm_square2_zero_iff Let_def)
next
  case False
  then have nz: "norm_square2 (sub2 b a) \<noteq> 0" by (simp add: norm_square2_zero_iff)
  obtain x y where a: "a = (x, y)" by (cases a)
  obtain u v where b: "b = (u, v)" by (cases b)
  define t where "t = clamped_parameter p a b"
  have q: "closest_segment_point2 p a b = add2 a (scale2 t (sub2 b a))"
    using nz by (simp add: closest_segment_point2_def clamped_parameter_def t_def Let_def)
  have "dot2 (sub2 b a) (sub2 (add2 a (scale2 t (sub2 b a))) a) = t * norm_square2 (sub2 b a)"
    by (simp add: a b norm_square2_def algebra_simps)
  then have "dot2 (sub2 b a) (sub2 (closest_segment_point2 p a b) a) / norm_square2 (sub2 b a) = t"
    using nz q by simp
  with False nz show ?thesis
    by (simp add: barycentric_coordinates2_def Let_def t_def)
qed

lemma clamped_parameter_range: "0 \<le> clamped_parameter p a b \<and> clamped_parameter p a b \<le> 1"
  by (simp add: clamped_parameter_def)

lemma interpolate2d_selects:
  assumes run: "interpolate2d st name pts markers tv = (None, out)"
    and i: "i < length pts" and marked: "markers ! i"
  shows "\<exists>f j. field2d st name = Inr f \<and> j + 1 < length (points2d st) \<and>
           (\<forall>k. k + 1 < length (points2d st) \<longrightarrow>
              segment_distance (points2d st) j (pts ! i) \<le> segment_distance (points2d st) k (pts ! i)) \<and>
           (\<forall>k<j. segment_distance (points2d st) j (pts ! i) < segment_distance (points2d st) k (pts ! i)) \<and>
           out ! i =
             (if points2d st ! j = points2d st ! (j + 1) then None
              else Some ((1 - clamped_parameter (pts ! i) (points2d st ! j) (points2d st ! (j + 1))) * f ! j
                         + clamped_parameter (pts ! i) (points2d st ! j) (points2d st ! (j + 1)) * f ! (j + 1)))"
proof -
  let ?P = "points2d st" and ?p = "pts ! i"
  from interpolate2d_marked[OF run i marked] obtain f s where
    f: "field2d st name = Inr f"
    and s: "for_loop [0..<length ?P - 1] (segment_step ?P ?p)
             \<lparr> p_found = origin2, j_found = 0, d2_min = -1 \<rparr> = (None, s)"
    and v: "blend2d ?P f s (Some 0) = Inr (out ! i)" by blast
  from v have j: "j_found s + 1 < length ?P" and jf: "j_found s + 1 < length f"
    by (auto simp: blend2d_def Let_def split: if_splits)
  then have two: "2 \<le> length ?P" by simp
  from segment_scan[OF two, of ?p] s have a:
    "p_found s = segment_closest ?P (j_found s) ?p"
    "\<forall>k. k + 1 < length ?P \<longrightarrow> segment_distance ?P (j_found s) ?p \<le> segment_distance ?P k ?p"
    "\<forall>k<j_found s. segment_distance ?P (j_found s) ?p < segment_distance ?P k ?p"
    by auto
  have "out ! i =
     (if ?P ! j_found s = ?P ! (j_found s + 1) then None
      else Some ((1 - clamped_parameter ?p (?P ! j_found s) (?P ! (j_found s + 1))) * f ! j_found s
                 + clamped_parameter ?p (?P ! j_found s) (?P ! (j_found s + 1)) * f ! (j_found s + 1)))"
    using v j jf a(1)
    by (auto simp: blend2d_def Let_def segment_closest_def barycentric_of_closest split: if_splits)
  then show ?thesis
    by (intro exI[of _ f] exI[of _ "j_found s"]) (use f j a in simp)
qed

lemma sqrt_quarter: "sqrt (1 / 4) = 1 / 2"
  by (rule real_sqrt_unique) (simp_all add: power2_eq_square)

lemma interpolate2d_polyline:
  "interpolate2d polyline ''q'' [(3 / 2, 0)] [True] tv = (None, [Some 15])"
  by (simp add: interpolate2d_def field2d_def polyline_def interpolate2d_step_def upt_rec
      segment_step_def closest_segment_point2_def norm2_def norm_square2_def Let_def
      blend2d_def barycentric_coordinates2_def origin2_def sqrt_quarter)

text \<open>
  C7. For a marked target point of a call that returns, the polyline has a segment, and
  the value written comes from the segment \<open>j\<close> of lowest index among those whose
  closest point is at the least distance from the target point, over all the segments:
  it is \<open>(1 - t) * f[j] + t * f[j + 1]\<close>, where \<open>t\<close> in \<open>[0, 1]\<close> is the clamped parameter
  of the target point on the segment (not a number when the two end points coincide).
  On the polyline \<open>(0,0), (1,0), (2,0)\<close> with the values 0, 10, 20 the point
  \<open>(3/2, 0)\<close> gets 15.
\<close>

theorem interpolate2d_blends_nearest_segment:
  "(interpolate2d st field_name target_points markers target_values = (None, out) \<and>
    i < length target_points \<and> markers ! i \<longrightarrow>
      (\<exists>source_field j t.
         field2d st field_name = Inr source_field \<and> j + 1 < length (points2d st) \<and>
         (\<forall>k. k + 1 < length (points2d st) \<longrightarrow>
            segment_distance (points2d st) j (target_points ! i)
              \<le> segment_distance (points2d st) k (target_points ! i)) \<and>
         (\<forall>k<j. segment_distance (points2d st) j (target_points ! i)
                  < segment_distance (points2d st) k (target_points ! i)) \<and>
         t = clamped_parameter (target_points ! i) (points2d st ! j) (points2d st ! (j + 1)) \<and>
         0 \<le> t \<and> t \<le> 1 \<and>
         out ! i = (if points2d st ! j = points2d st ! (j + 1) then None
                    else Some ((1 - t) * source_field ! j + t * source_field ! (j + 1))))) \<and>
   interpolate2d polyline ''q'' [(3 / 2, 0)] [True] target_values = (None, [Some 15])"
proof (intro conjI impI)
  assume a: "interpolate2d st field_name target_points markers target_values = (None, out) \<and>
    i < length target_points \<and> markers ! i"
  from interpolate2d_selects[of st field_name target_points markers target_values out i] a
  obtain f j where
    "field2d st field_name = Inr f" "j + 1 < length (points2d st)"
    "\<forall>k. k + 1 < length (points2d st) \<longrightarrow>
            segment_distance (points2d st) j (target_points ! i)
              \<le> segment_distance (points2d st) k (target_points ! i)"
    "\<forall>k<j. segment_distance (points2d st) j (target_points ! i)
                  < segment_distance (points2d st) k (target_points ! i)"
    "out ! i = (if points2d st ! j = points2d st ! (j + 1) then None
              else Some ((1 - clamped_parameter (target_points ! i) (points2d st ! j) (points2d st ! (j + 1))) * f ! j
                         + clamped_parameter (target_points ! i) (points2d st ! j) (points2d st ! (j + 1)) * f ! (j + 1)))"
    by blast
  then show "\<exists>source_field j t.
         field2d st field_name = Inr source_field \<and> j + 1 < length (points2d st) \<and>
         (\<forall>k. k + 1 < length (points2d st) \<longrightarrow>
            segment_distance (points2d st) j (target_points ! i)
              \<le> segment_distance (points2d st) k (target_points ! i)) \<and>
         (\<forall>k<j. segment_distance (points2d st) j (target_points ! i)
                  < segment_distance (points2d st) k (target_points ! i)) \<and>
         t = clamped_parameter (target_points ! i) (points2d st ! j) (points2d st ! (j + 1)) \<and>
         0 \<le> t \<and> t \<le> 1 \<and>
         out ! i = (if points2d st ! j = points2d st ! (j + 1) then None
                    else Some ((1 - t) * source_field ! j + t * source_field ! (j + 1)))"
    using clamped_parameter_range[of "target_points ! i" "points2d st ! j" "points2d st ! (j + 1)"]
    by (intro exI[of _ f] exI[of _ j]
          exI[of _ "clamped_parameter (target_points ! i) (points2d st ! j) (points2d st ! (j + 1))"]) simp
next
  show "interpolate2d polyline ''q'' [(3 / 2, 0)] [True] target_values = (None, [Some 15])"
    by (rule interpolate2d_polyline)
qed

theorem interpolate2d_blends_nearest_segment_witness:
  "interpolate2d polyline ''q'' [(3 / 2, 0)] [True] [] = (None, [Some 15]) \<and>
   (0::nat) < length [(3 / 2, 0) :: point2] \<and> [True] ! 0 \<and>
   (\<exists>source_field j t.
      field2d polyline ''q'' = Inr source_field \<and> j + 1 < length (points2d polyline) \<and>
      0 \<le> t \<and> t \<le> 1 \<and>
      [Some 15] ! 0 = (if points2d polyline ! j = points2d polyline ! (j + 1) then None
                       else Some ((1 - t) * source_field ! j + t * source_field ! (j + 1))))"
proof -
  have run: "interpolate2d polyline ''q'' [(3 / 2, 0)] [True] [] = (None, [Some 15]) \<and>
    (0::nat) < length [(3 / 2, 0) :: point2] \<and> [True] ! 0"
    by (simp add: interpolate2d_polyline)
  from interpolate2d_blends_nearest_segment[of polyline "''q''" "[(3 / 2, 0)]" "[True]" "[]"
      "[Some 15]" 0, THEN conjunct1, THEN mp, OF run]
  obtain source_field j t where
    "field2d polyline ''q'' = Inr source_field" "j + 1 < length (points2d polyline)"
    "0 \<le> t" "t \<le> 1"
    "[Some 15] ! 0 = (if points2d polyline ! j = points2d polyline ! (j + 1) then None
                       else Some ((1 - t) * source_field ! j + t * source_field ! (j + 1)))"
    by blast
  with run show ?thesis by blast
qed

section \<open>Bounds of the polyline interpolator\<close>

lemma blend2d_short: "length pts < 2 \<Longrightarrow> blend2d pts f \<lparr> p_found = q, j_found = 0, d2_min = d \<rparr> old = Inl OutOfBounds"
  by (simp add: blend2d_def)

lemma interpolate2d_short:
  assumes f: "field2d st name = Inr f" and short: "length (points2d st) < 2"
    and markers: "length pts \<le> length markers"
  shows "interpolate2d st name pts markers tv =
     (case find (\<lambda>i. markers ! i) [0..<length pts] of
        None \<Rightarrow> (None, replicate (length pts) (Some 0))
      | Some i \<Rightarrow> (Some OutOfBounds, replicate (length pts) (Some 0)))"
proof -
  have "for_loop [0..<length pts] (interpolate2d_step st f pts markers) (replicate (length pts) (Some 0)) =
     (case find (\<lambda>i. markers ! i) [0..<length pts] of
        None \<Rightarrow> (None, replicate (length pts) (Some 0))
      | Some i \<Rightarrow> (Some OutOfBounds, replicate (length pts) (Some 0)))"
    by (rule for_loop_stops_at_first)
       (use short markers in \<open>auto simp: interpolate2d_step_def segment_scan_short blend2d_short\<close>)
  with f show ?thesis by (simp add: interpolate2d_def Let_def)
qed

lemma blend2d_ok:
  assumes "j_found s + 1 < length pts" and "j_found s + 1 < length f"
  shows "\<exists>v. blend2d pts f s old = Inr v"
proof (cases "barycentric_coordinates2 (p_found s) (pts ! j_found s) (pts ! (j_found s + 1))")
  case None
  with assms show ?thesis by (simp add: blend2d_def)
next
  case (Some w)
  with assms show ?thesis by (cases w) (simp add: blend2d_def)
qed

lemma interpolate2d_in_bounds:
  assumes f: "field2d st name = Inr f" and two: "2 \<le> length (points2d st)"
    and len: "length f = length (points2d st)" and markers: "length pts \<le> length markers"
  shows "\<exists>out. interpolate2d st name pts markers tv = (None, out)"
proof -
  have step: "\<exists>tv'. interpolate2d_step st f pts markers i tv = (None, tv') \<and> True"
    if "i \<in> set [0..<length pts]" for i tv
  proof (cases "markers ! i")
    case False
    with that markers show ?thesis by (simp add: interpolate2d_step_def)
  next
    case True
    from segment_scan[OF two, of "pts ! i"] obtain s where
      s: "for_loop [0..<length (points2d st) - 1] (segment_step (points2d st) (pts ! i))
            \<lparr> p_found = origin2, j_found = 0, d2_min = -1 \<rparr> = (None, s)"
      and j: "j_found s + 1 < length (points2d st)" by blast
    from j len obtain v where "blend2d (points2d st) f s (tv ! i) = Inr v"
      using blend2d_ok[of s "points2d st" f "tv ! i"] by auto
    with s True that markers show ?thesis by (simp add: interpolate2d_step_def)
  qed
  have "\<exists>out. for_loop [0..<length pts] (interpolate2d_step st f pts markers)
                (replicate (length pts) (Some 0)) = (None, out) \<and> True"
    by (rule for_loop_all_ok[where P = "\<lambda>_. True"]) (use step in auto)
  with f show ?thesis by (simp add: interpolate2d_def Let_def)
qed

lemma split_header: "split_words [] ''r z q'' = [''r'', ''z'', ''q'']"
  by (simp add: is_space_def)

lemma split_row: "split_words [] ''0 0 5'' = [''0'', ''0'', ''5'']"
  by (simp add: is_space_def)

lemma parse_decimal_double_digits:
  "parse_decimal_double ''0'' = Some 0" "parse_decimal_double ''5'' = Some 5"
  by (simp_all add: parse_decimal_double_def parse_decimal_def digit_value_def)

lemma read_txt_unreadable: "read_txt pd None st = (None, empty_polyline)"
  by (simp add: read_txt_def clear2d_def empty_polyline_def)

lemma read_txt_one_row:
  "read_txt parse_decimal_double (Some [''r z q'', ''0 0 5'']) st = (None, one_point_polyline)"
  by (simp add: read_txt_def read_line_def read_column_def clear2d_def is_space_def
      extract_value_def parse_decimal_double_digits resize_def one_point_polyline_def Let_def)

lemma column_loop:
  assumes "for_loop [0..<n] (read_column pd) (ss, val, fv) = (None, ss', val', fv')"
    and "n \<le> length fv"
  shows "length fv' = length fv \<and>
         (\<forall>i<length fv. length (fv' ! i) = length (fv ! i) + (if i < n then 1 else 0))"
  using assms
proof (induction n arbitrary: ss' val' fv')
  case 0
  then show ?case by simp
next
  case (Suc n)
  from Suc.prems(1) obtain ss1 val1 fv1 where
    mid: "for_loop [0..<n] (read_column pd) (ss, val, fv) = (None, ss1, val1, fv1)"
    and last: "read_column pd n (ss1, val1, fv1) = (None, ss', val', fv')"
    unfolding for_loop_upt_Suc by (auto split: prod.splits option.splits)
  from Suc.IH[OF mid] Suc.prems(2) have len: "length fv1 = length fv"
    and each: "\<forall>i<length fv. length (fv1 ! i) = length (fv ! i) + (if i < n then 1 else 0)"
    by auto
  from last obtain x where fv': "fv' = fv1[n := fv1 ! n @ [x]]"
    by (auto simp: read_column_def split: prod.splits option.splits)
  have "length (fv' ! i) = length (fv ! i) + (if i < Suc n then 1 else 0)" if "i < length fv" for i
  proof (cases "i = n")
    case True
    with that fv' len each show ?thesis by simp
  next
    case False
    with that fv' len each show ?thesis by (auto simp: less_Suc_eq)
  qed
  with fv' len show ?case by simp
qed

lemma read_line_invariant:
  assumes "txt_invariant r" and "read_line pd line r = (None, r')"
  shows "txt_invariant r'"
proof (cases "line = []")
  case True
  with assms show ?thesis by (simp add: read_line_def)
next
  case False
  show ?thesis
  proof (cases "field_names r = []")
    case True
    with assms(1) have "field_values r = []" "points2d (loaded r) = []" "fields2d (loaded r) = Map.empty"
      by (auto simp: txt_invariant_def)
    with assms(2) False True show ?thesis
      by (auto simp: read_line_def txt_invariant_def resize_def Let_def)
  next
    case names: False
    obtain x ss1 where x: "extract_value pd 0 \<lparr> tokens = split_words [] line, good = True \<rparr> 0 = (x, ss1)"
      by (cases "extract_value pd 0 \<lparr> tokens = split_words [] line, good = True \<rparr> 0")
    obtain y ss2 where y: "extract_value pd 0 ss1 0 = (y, ss2)"
      by (cases "extract_value pd 0 ss1 0")
    obtain e ss3 val fv where loop: "for_loop [0..<length (field_names r)] (read_column pd)
        (ss2, None, field_values r) = (e, ss3, val, fv)"
      by (cases "for_loop [0..<length (field_names r)] (read_column pd) (ss2, None, field_values r)") auto
    from assms(2) False names x y loop have e: "e = None"
      and r': "r' = r\<lparr> field_values := fv,
                       loaded := (loaded r)\<lparr> points2d := points2d (loaded r) @ [(x, y)] \<rparr> \<rparr>"
      by (auto simp: read_line_def)
    have n: "length (field_names r) \<le> length (field_values r)"
      using assms(1) by (simp add: txt_invariant_def)
    from column_loop[OF loop[unfolded e] n] assms(1)
    have len: "length fv = length (field_names r)"
      and each: "\<forall>i<length fv. length (fv ! i) = length (points2d (loaded r)) + 1"
      by (auto simp: txt_invariant_def)
    have "\<forall>v\<in>set fv. length v = length (points2d (loaded r)) + 1"
      using each by (auto simp: in_set_conv_nth)
    with len assms(1) names show ?thesis
      by (simp add: txt_invariant_def r')
  qed
qed

lemma fold_fields_length:
  assumes "\<forall>i<n. length (values ! i) = L"
    and "fold (\<lambda>i fmap. fmap(names ! i \<mapsto> values ! i)) [0..<n] Map.empty name = Some f"
  shows "length f = L"
  using assms
proof (induction n arbitrary: f)
  case 0
  then show ?case by simp
next
  case (Suc n)
  then show ?case by (auto split: if_splits)
qed

lemma read_txt_lengths:
  assumes "read_txt pd contents st = (None, st')" and "fields2d st' name = Some f"
  shows "length f = length (points2d st')"
proof (cases contents)
  case None
  with assms show ?thesis by (auto simp: read_txt_def clear2d_def)
next
  case (Some lines)
  let ?r0 = "\<lparr> field_names = [], field_values = [], loaded = clear2d st \<rparr>"
  obtain e r where loop: "for_loop lines (read_line pd) ?r0 = (e, r)"
    by (cases "for_loop lines (read_line pd) ?r0")
  with assms(1) Some have e: "e = None"
    and st': "st' = (loaded r)\<lparr> fields2d :=
                        fold (\<lambda>i fmap. fmap(field_names r ! i \<mapsto> field_values r ! i))
                          [0..<length (field_names r)] (fields2d (loaded r)) \<rparr>"
    by (auto simp: read_txt_def split: option.splits)
  have "txt_invariant ?r0" by (simp add: txt_invariant_def clear2d_def)
  then have inv: "txt_invariant r"
    using loop[unfolded e] by (rule for_loop_preserves) (rule read_line_invariant)
  then have "\<forall>i<length (field_names r). length (field_values r ! i) = length (points2d (loaded r))"
    by (simp add: txt_invariant_def)
  moreover have "fold (\<lambda>i fmap. fmap(field_names r ! i \<mapsto> field_values r ! i))
       [0..<length (field_names r)] Map.empty name = Some f"
    using assms(2) st' inv by (simp add: txt_invariant_def)
  ultimately have "length f = length (points2d (loaded r))" by (rule fold_fields_length)
  with st' show ?thesis by simp
qed

lemma read_txt_polyline:
  "read_txt parse_decimal_double (Some [''r z q'', ''0 0 0'', ''1 0 10'', ''2 0 20'']) st = (None, polyline)"
  by (simp add: read_txt_def read_line_def read_column_def clear2d_def is_space_def
      extract_value_def parse_decimal_double_def parse_decimal_def digit_value_def
      resize_def polyline_def Let_def)

lemma interpolate2d_one_point:
  "interpolate2d one_point_polyline ''q'' [(0, 0)] [True] tv = (Some OutOfBounds, [Some 0])"
  by (simp add: interpolate2d_def field2d_def one_point_polyline_def interpolate2d_step_def blend2d_def)

lemma interpolate2d_after_failed_read:
  "interpolate2d empty_polyline ''q'' [(0, 0)] [True] tv = (Some (FieldNotFound ''q''), tv)"
  by (simp add: interpolate2d_def field2d_def empty_polyline_def)

text \<open>
  C10. When the named field exists, the store holds fewer than two points
  and some target point is marked, \<^verbatim>\<open>interpolate\<close> reads past the end of the point and
  field vectors; no exception of the interpolator is thrown. \<^verbatim>\<open>read_txt\<close> gives such a
  store from a file with a header line and one data row. With at least two points and
  a field as long as the point vector, which every field of a store loaded by
  \<^verbatim>\<open>read_txt\<close> is, and one marker for each target point, every index is in bounds and
  the call returns.
\<close>

theorem interpolate2d_needs_two_points:
  "(field2d st field_name = Inr source_field \<and> length (points2d st) < 2 \<and>
    length markers = length target_points \<and> (\<exists>i<length target_points. markers ! i) \<longrightarrow>
      fst (interpolate2d st field_name target_points markers target_values) = Some OutOfBounds) \<and>
   (field2d st field_name = Inr source_field \<and> 2 \<le> length (points2d st) \<and>
    length source_field = length (points2d st) \<and> length markers = length target_points \<longrightarrow>
      fst (interpolate2d st field_name target_points markers target_values) = None) \<and>
   (read_txt parse_double contents st0 = (None, st) \<and> field2d st field_name = Inr source_field \<longrightarrow>
      length source_field = length (points2d st)) \<and>
   read_txt parse_decimal_double (Some [''r z q'', ''0 0 5'']) st0 = (None, one_point_polyline) \<and>
   interpolate2d one_point_polyline ''q'' [(0, 0)] [True] target_values = (Some OutOfBounds, [Some 0])"
proof (intro conjI impI)
  assume a: "field2d st field_name = Inr source_field \<and> length (points2d st) < 2 \<and>
    length markers = length target_points \<and> (\<exists>i<length target_points. markers ! i)"
  then have m: "length target_points \<le> length markers" by simp
  from a have "find (\<lambda>i. markers ! i) [0..<length target_points] \<noteq> None"
    by (simp add: find_upt_None)
  then obtain i where "find (\<lambda>i. markers ! i) [0..<length target_points] = Some i" by blast
  with a m interpolate2d_short[of st field_name source_field target_points markers target_values]
  show "fst (interpolate2d st field_name target_points markers target_values) = Some OutOfBounds"
    by simp
next
  assume a: "field2d st field_name = Inr source_field \<and> 2 \<le> length (points2d st) \<and>
    length source_field = length (points2d st) \<and> length markers = length target_points"
  then have m: "length target_points \<le> length markers" by simp
  from a m interpolate2d_in_bounds[of st field_name source_field target_points markers target_values]
  obtain out where "interpolate2d st field_name target_points markers target_values = (None, out)"
    by blast
  then show "fst (interpolate2d st field_name target_points markers target_values) = None" by simp
next
  assume a: "read_txt parse_double contents st0 = (None, st) \<and> field2d st field_name = Inr source_field"
  then have "fields2d st field_name = Some source_field"
    by (auto simp: field2d_def split: option.splits)
  with a show "length source_field = length (points2d st)"
    using read_txt_lengths by blast
next
  show "read_txt parse_decimal_double (Some [''r z q'', ''0 0 5'']) st0 = (None, one_point_polyline)"
    by (rule read_txt_one_row)
next
  show "interpolate2d one_point_polyline ''q'' [(0, 0)] [True] target_values = (Some OutOfBounds, [Some 0])"
    by (rule interpolate2d_one_point)
qed

theorem interpolate2d_needs_two_points_witness:
  "field2d one_point_polyline ''q'' = Inr [5] \<and> length (points2d one_point_polyline) < 2 \<and>
   length [True] = length [(0, 0) :: point2] \<and> (0::nat) < length [(0, 0) :: point2] \<and> [True] ! 0 \<and>
   fst (interpolate2d one_point_polyline ''q'' [(0, 0)] [True] []) = Some OutOfBounds \<and>
   read_txt parse_decimal_double (Some [''r z q'', ''0 0 0'', ''1 0 10'', ''2 0 20'']) empty_polyline
     = (None, polyline) \<and>
   field2d polyline ''q'' = Inr [0, 10, 20] \<and> 2 \<le> length (points2d polyline) \<and>
   length [0, 10, 20 :: real] = length (points2d polyline) \<and>
   fst (interpolate2d polyline ''q'' [(0, 0)] [True] []) = None"
proof -
  have f1: "field2d one_point_polyline ''q'' = Inr [5]"
    by (simp add: field2d_def one_point_polyline_def)
  have s1: "length (points2d one_point_polyline) < 2" by (simp add: one_point_polyline_def)
  have l: "length [True] = length [(0, 0) :: point2]" by simp
  have i: "\<exists>i<length [(0, 0) :: point2]. [True] ! i" by simp
  note t1 = interpolate2d_needs_two_points[of one_point_polyline "''q''" "[5]" "[True]" "[(0, 0)]" "[]"
      parse_decimal_double None empty_polyline, THEN conjunct1, THEN mp]
  have a: "fst (interpolate2d one_point_polyline ''q'' [(0, 0)] [True] []) = Some OutOfBounds"
    by (rule t1) (use f1 s1 l i in blast)
  have r: "read_txt parse_decimal_double (Some [''r z q'', ''0 0 0'', ''1 0 10'', ''2 0 20'']) empty_polyline
     = (None, polyline)" by (rule read_txt_polyline)
  have f2: "field2d polyline ''q'' = Inr [0, 10, 20]" by (simp add: field2d_def polyline_def)
  have s2: "2 \<le> length (points2d polyline)" by (simp add: polyline_def)
  note t = interpolate2d_needs_two_points[of polyline "''q''" "[0, 10, 20]" "[True]" "[(0, 0)]" "[]"
      parse_decimal_double "Some [''r z q'', ''0 0 0'', ''1 0 10'', ''2 0 20'']" empty_polyline]
  have len: "length [0, 10, 20 :: real] = length (points2d polyline)"
    by (rule t[THEN conjunct2, THEN conjunct2, THEN conjunct1, THEN mp]) (use r f2 in blast)
  have b: "fst (interpolate2d polyline ''q'' [(0, 0)] [True] []) = None"
    by (rule t[THEN conjunct2, THEN conjunct1, THEN mp]) (use f2 s2 len l in blast)
  from f1 s1 l a r f2 s2 len b show ?thesis by simp
qed

text \<open>
  The store after a \<^verbatim>\<open>read_txt\<close> that could not open its file has fewer than two points
  and no field: \<^verbatim>\<open>interpolate\<close> throws the missing-field error before it reads any
  vector, and no access goes past the end.
\<close>

theorem failed_read_txt_is_field_not_found:
  "read_txt parse_decimal_double None polyline = (None, empty_polyline) \<and>
   length (points2d empty_polyline) < 2 \<and>
   interpolate2d empty_polyline ''q'' [(0, 0)] [True] [] = (Some (FieldNotFound ''q''), [])"
  by (simp add: read_txt_unreadable interpolate2d_after_failed_read) (simp add: empty_polyline_def)

section \<open>Conversions between cell and point fields\<close>

lemma add_at_ok:
  assumes "k < length tf" and "length cnt = length tf"
  shows "add_at x k (tf, cnt) = (None, tf[k := tf ! k + x], cnt[k := cnt ! k + 1])"
  using assms by (simp add: add_at_def)

lemma add_at_list:
  assumes "length cnt = length tf" and "\<forall>k\<in>set ks. k < length tf"
  shows "\<exists>tf' cnt'. for_loop ks (add_at x) (tf, cnt) = (None, tf', cnt') \<and>
           length tf' = length tf \<and> length cnt' = length tf \<and>
           (\<forall>p<length tf. tf' ! p = tf ! p + real (count_list ks p) * x \<and>
                          cnt' ! p = cnt ! p + count_list ks p)"
  using assms
proof (induction ks arbitrary: tf cnt)
  case Nil
  then show ?case by simp
next
  case (Cons k ks)
  let ?tf1 = "tf[k := tf ! k + x]" and ?c1 = "cnt[k := cnt ! k + 1]"
  have k: "k < length tf" using Cons.prems(2) by simp
  have first: "add_at x k (tf, cnt) = (None, ?tf1, ?c1)"
    using k Cons.prems(1) by (simp add: add_at_def)
  have "length ?c1 = length ?tf1" using Cons.prems(1) by simp
  moreover have "\<forall>k\<in>set ks. k < length ?tf1" using Cons.prems(2) by simp
  ultimately obtain tf' cnt' where
    run: "for_loop ks (add_at x) (?tf1, ?c1) = (None, tf', cnt')"
    and len: "length tf' = length ?tf1" "length cnt' = length ?tf1"
    and each: "\<forall>p<length ?tf1. tf' ! p = ?tf1 ! p + real (count_list ks p) * x \<and>
                          cnt' ! p = ?c1 ! p + count_list ks p"
    using Cons.IH[of ?c1 ?tf1] by blast
  have "tf' ! p = tf ! p + real (count_list (k # ks) p) * x \<and>
        cnt' ! p = cnt ! p + count_list (k # ks) p" if p: "p < length tf" for p
  proof (cases "p = k")
    case True
    with each p Cons.prems(1) show ?thesis by (simp add: distrib_right)
  next
    case False
    with each p Cons.prems(1) show ?thesis by simp
  qed
  with run first len show ?case by simp
qed

lemma cell_to_point_step_eq:
  "i < length source_field \<Longrightarrow>
   cell_to_point_step tris source_field i tc = for_loop (slots (tris ! i)) (add_at (source_field ! i)) tc"
  by (simp add: cell_to_point_step_def slots_def split: prod.splits)

lemma cell_to_point_loop:
  assumes valid: "\<forall>t\<in>set tris. \<forall>v\<in>set (slots t). v < np"
    and m: "m \<le> length tris" "m \<le> length src"
  shows "\<exists>tf cnt. for_loop [0..<m] (cell_to_point_step tris src) (replicate np 0, replicate np 0)
                    = (None, tf, cnt) \<and>
           length tf = np \<and> length cnt = np \<and>
           (\<forall>p<np. tf ! p = (\<Sum>i<m. real (count_list (slots (tris ! i)) p) * src ! i) \<and>
                    cnt ! p = (\<Sum>i<m. count_list (slots (tris ! i)) p))"
  using m
proof (induction m)
  case 0
  then show ?case by simp
next
  case (Suc m)
  then obtain tf cnt where
    run: "for_loop [0..<m] (cell_to_point_step tris src) (replicate np 0, replicate np 0) = (None, tf, cnt)"
    and len: "length tf = np" "length cnt = np"
    and each: "\<forall>p<np. tf ! p = (\<Sum>i<m. real (count_list (slots (tris ! i)) p) * src ! i) \<and>
                    cnt ! p = (\<Sum>i<m. count_list (slots (tris ! i)) p)"
    by auto
  have "tris ! m \<in> set tris" using Suc.prems(1) by simp
  with valid have "\<forall>k\<in>set (slots (tris ! m)). k < length tf" using len by blast
  with add_at_list[of cnt tf "slots (tris ! m)" "src ! m"] len obtain tf' cnt' where
    step: "for_loop (slots (tris ! m)) (add_at (src ! m)) (tf, cnt) = (None, tf', cnt')"
    and len': "length tf' = np" "length cnt' = np"
    and each': "\<forall>p<np. tf' ! p = tf ! p + real (count_list (slots (tris ! m)) p) * src ! m \<and>
                          cnt' ! p = cnt ! p + count_list (slots (tris ! m)) p"
    by auto
  have "cell_to_point_step tris src m (tf, cnt) = (None, tf', cnt')"
    using step Suc.prems(2) by (simp add: cell_to_point_step_eq)
  then have "for_loop [0..<Suc m] (cell_to_point_step tris src) (replicate np 0, replicate np 0)
      = (None, tf', cnt')"
    unfolding for_loop_upt_Suc using run by simp
  with len' each each' show ?case by simp
qed

lemma divide_loop:
  assumes "m \<le> length tf"
  shows "length (fold (divide_step cnt) [0..<m] tf) = length tf \<and>
         (\<forall>p<length tf. fold (divide_step cnt) [0..<m] tf ! p =
            (if p < m \<and> cnt ! p > 0 then tf ! p / real (cnt ! p) else tf ! p))"
  using assms
proof (induction m)
  case 0
  then show ?case by simp
next
  case (Suc m)
  then have IH: "length (fold (divide_step cnt) [0..<m] tf) = length tf"
    "\<forall>p<length tf. fold (divide_step cnt) [0..<m] tf ! p =
            (if p < m \<and> cnt ! p > 0 then tf ! p / real (cnt ! p) else tf ! p)"
    by auto
  let ?r = "fold (divide_step cnt) [0..<m] tf"
  have eq: "fold (divide_step cnt) [0..<Suc m] tf = divide_step cnt m ?r" by simp
  have m: "m < length tf" using Suc.prems by simp
  have "length (divide_step cnt m ?r) = length tf" using IH(1) by (simp add: divide_step_def)
  moreover have "divide_step cnt m ?r ! p =
            (if p < Suc m \<and> cnt ! p > 0 then tf ! p / real (cnt ! p) else tf ! p)"
    if "p < length tf" for p
  proof (cases "p = m")
    case True
    with IH m show ?thesis by (simp add: divide_step_def)
  next
    case False
    with IH that show ?thesis by (auto simp: divide_step_def less_Suc_eq)
  qed
  ultimately show ?case unfolding eq by blast
qed

lemma subscript_present: "fmap name = Some f \<Longrightarrow> subscript fmap name = fmap"
  by (simp add: subscript_def)

lemma subscript_update: "(subscript fmap name)(name \<mapsto> v) = fmap(name \<mapsto> v)"
  by (auto simp: subscript_def split: option.splits)

lemma cell_to_point_result:
  assumes valid: "valid_triangles st" and src: "cell_fields st source = Some f"
    and len: "length (triangles st) \<le> length f"
  shows "\<exists>r. cell_to_point st source target
                = (None, st\<lparr> point_fields := (point_fields st)(target \<mapsto> r) \<rparr>) \<and>
           length r = length (points st) \<and>
           (\<forall>p<length (points st).
              r ! p = (if (\<Sum>i<length (triangles st). count_list (slots (triangles st ! i)) p) > 0
                       then (\<Sum>i<length (triangles st).
                               real (count_list (slots (triangles st ! i)) p) * f ! i)
                            / real (\<Sum>i<length (triangles st). count_list (slots (triangles st ! i)) p)
                       else 0))"
proof -
  let ?np = "length (points st)" and ?n = "length (triangles st)" and ?tris = "triangles st"
  from valid have v: "\<forall>t\<in>set ?tris. \<forall>v\<in>set (slots t). v < ?np" by (simp add: valid_triangles_def)
  from cell_to_point_loop[OF v, of ?n f] len obtain tf cnt where
    run: "for_loop [0..<?n] (cell_to_point_step ?tris f) (replicate ?np 0, replicate ?np 0) = (None, tf, cnt)"
    and l: "length tf = ?np" "length cnt = ?np"
    and each: "\<forall>p<?np. tf ! p = (\<Sum>i<?n. real (count_list (slots (?tris ! i)) p) * f ! i) \<and>
                    cnt ! p = (\<Sum>i<?n. count_list (slots (?tris ! i)) p)"
    by auto
  let ?r = "fold (divide_step cnt) [0..<?np] tf"
  from divide_loop[of ?np tf cnt] l have rl: "length ?r = ?np"
    and re: "\<forall>p<?np. ?r ! p = (if cnt ! p > 0 then tf ! p / real (cnt ! p) else tf ! p)"
    by auto
  have sub: "subscript (cell_fields st) source = cell_fields st"
    using src by (rule subscript_present)
  have res: "cell_to_point st source target = (None, st\<lparr> point_fields := (point_fields st)(target \<mapsto> ?r) \<rparr>)"
    using run src
    by (simp add: cell_to_point_def Let_def field_mut_def sub subscript_update)
  have "?r ! p = (if (\<Sum>i<?n. count_list (slots (?tris ! i)) p) > 0
                       then (\<Sum>i<?n. real (count_list (slots (?tris ! i)) p) * f ! i)
                            / real (\<Sum>i<?n. count_list (slots (?tris ! i)) p)
                       else 0)" if p: "p < ?np" for p
  proof (cases "cnt ! p > 0")
    case True
    with re each p show ?thesis by simp
  next
    case False
    with each p have z: "(\<Sum>i<?n. count_list (slots (?tris ! i)) p) = 0" by simp
    then have "\<forall>i<?n. count_list (slots (?tris ! i)) p = 0" by simp
    then have "(\<Sum>i<?n. real (count_list (slots (?tris ! i)) p) * f ! i) = 0" by simp
    with re each p False z show ?thesis by simp
  qed
  with res rl show ?thesis by blast
qed

lemma point_to_cell_step_ok:
  assumes t: "tris ! i = (v0, v1, v2)" and v: "v0 < length f" "v1 < length f" "v2 < length f"
    and i: "i < length tf" and len: "length cnt = length tf"
  shows "point_to_cell_step tris f i (tf, cnt) =
     (None, tf[i := tf ! i + f ! v0 + f ! v1 + f ! v2], cnt[i := cnt ! i + 3])"
  using assms by (simp add: point_to_cell_step_def add_at_def numeral_3_eq_3)

lemma point_to_cell_loop:
  assumes valid: "\<forall>t\<in>set tris. \<forall>v\<in>set (slots t). v < length f"
    and m: "m \<le> length tris"
  shows "\<exists>tf cnt. for_loop [0..<m] (point_to_cell_step tris f)
                     (replicate (length tris) 0, replicate (length tris) 0) = (None, tf, cnt) \<and>
           length tf = length tris \<and> length cnt = length tris \<and>
           (\<forall>i<length tris.
              tf ! i = (if i < m then (case tris ! i of (v0, v1, v2) \<Rightarrow> f ! v0 + f ! v1 + f ! v2) else 0) \<and>
              cnt ! i = (if i < m then 3 else 0))"
  using m
proof (induction m)
  case 0
  then show ?case by simp
next
  case (Suc m)
  then obtain tf cnt where
    run: "for_loop [0..<m] (point_to_cell_step tris f)
            (replicate (length tris) 0, replicate (length tris) 0) = (None, tf, cnt)"
    and len: "length tf = length tris" "length cnt = length tris"
    and each: "\<forall>i<length tris.
              tf ! i = (if i < m then (case tris ! i of (v0, v1, v2) \<Rightarrow> f ! v0 + f ! v1 + f ! v2) else 0) \<and>
              cnt ! i = (if i < m then 3 else 0)"
    by auto
  obtain v0 v1 v2 where t: "tris ! m = (v0, v1, v2)" by (cases "tris ! m")
  have "tris ! m \<in> set tris" using Suc.prems by simp
  with valid t have v: "v0 < length f" "v1 < length f" "v2 < length f"
    by (fastforce simp: slots_def)+
  have m: "m < length tf" using Suc.prems len by simp
  have step: "point_to_cell_step tris f m (tf, cnt) =
     (None, tf[m := tf ! m + f ! v0 + f ! v1 + f ! v2], cnt[m := cnt ! m + 3])"
    using point_to_cell_step_ok[OF t v m] len by simp
  have run': "for_loop [0..<Suc m] (point_to_cell_step tris f)
            (replicate (length tris) 0, replicate (length tris) 0)
      = (None, tf[m := tf ! m + f ! v0 + f ! v1 + f ! v2], cnt[m := cnt ! m + 3])"
    unfolding for_loop_upt_Suc using run step by simp
  have "\<forall>i<length tris.
          (tf[m := tf ! m + f ! v0 + f ! v1 + f ! v2]) ! i =
             (if i < Suc m then (case tris ! i of (v0, v1, v2) \<Rightarrow> f ! v0 + f ! v1 + f ! v2) else 0) \<and>
          (cnt[m := cnt ! m + 3]) ! i = (if i < Suc m then 3 else 0)"
    using each len m t by (auto simp: nth_list_update less_Suc_eq)
  with run' len show ?case by simp
qed

lemma point_to_cell_result:
  assumes valid: "valid_triangles st" and src: "point_fields st source = Some f"
    and len: "length (points st) \<le> length f"
  shows "\<exists>r. point_to_cell st source target
                = (None, st\<lparr> cell_fields := (cell_fields st)(target \<mapsto> r) \<rparr>) \<and>
           length r = length (triangles st) \<and>
           (\<forall>i<length (triangles st).
              r ! i = (case triangles st ! i of (v0, v1, v2) \<Rightarrow> (f ! v0 + f ! v1 + f ! v2) / 3))"
proof -
  let ?n = "length (triangles st)" and ?tris = "triangles st"
  from valid len have v: "\<forall>t\<in>set ?tris. \<forall>v\<in>set (slots t). v < length f"
    by (fastforce simp: valid_triangles_def)
  from point_to_cell_loop[OF v, of ?n] obtain tf cnt where
    run: "for_loop [0..<?n] (point_to_cell_step ?tris f) (replicate ?n 0, replicate ?n 0) = (None, tf, cnt)"
    and l: "length tf = ?n" "length cnt = ?n"
    and each: "\<forall>i<?n. tf ! i = (case ?tris ! i of (v0, v1, v2) \<Rightarrow> f ! v0 + f ! v1 + f ! v2) \<and>
                    cnt ! i = 3"
    by auto
  let ?r = "fold (divide_step cnt) [0..<?n] tf"
  from divide_loop[of ?n tf cnt] l have rl: "length ?r = ?n"
    and re: "\<forall>p<?n. ?r ! p = (if cnt ! p > 0 then tf ! p / real (cnt ! p) else tf ! p)"
    by auto
  have sub: "subscript (point_fields st) source = point_fields st"
    using src by (rule subscript_present)
  have res: "point_to_cell st source target = (None, st\<lparr> cell_fields := (cell_fields st)(target \<mapsto> ?r) \<rparr>)"
    using run src
    by (simp add: point_to_cell_def Let_def field_mut_def sub subscript_update)
  have "\<forall>i<?n. ?r ! i = (case ?tris ! i of (v0, v1, v2) \<Rightarrow> (f ! v0 + f ! v1 + f ! v2) / 3)"
    using re each by (auto split: prod.splits)
  with res rl show ?thesis by blast
qed

lemma count_list_distinct: "distinct xs \<Longrightarrow> count_list xs x = (if x \<in> set xs then 1 else 0)"
  by (induction xs) auto

lemma sums_over_incident:
  assumes "\<forall>t\<in>set tris. distinct (slots t)"
  shows "(\<Sum>i<length tris. count_list (slots (tris ! i)) p) = card (incident tris p)"
    and "(\<Sum>i<length tris. real (count_list (slots (tris ! i)) p) * f i) = (\<Sum>i\<in>incident tris p. f i)"
proof -
  have c: "count_list (slots (tris ! i)) p = (if p \<in> set (slots (tris ! i)) then 1 else 0)"
    if "i < length tris" for i
    using assms that by (simp add: count_list_distinct)
  have inc: "incident tris p = {i \<in> {..<length tris}. p \<in> set (slots (tris ! i))}"
    by (auto simp: incident_def)
  have "(\<Sum>i<length tris. count_list (slots (tris ! i)) p)
      = (\<Sum>i<length tris. if p \<in> set (slots (tris ! i)) then 1 else 0)"
    by (rule sum.cong) (simp_all add: c)
  also have "\<dots> = (\<Sum>i\<in>{i \<in> {..<length tris}. p \<in> set (slots (tris ! i))}. 1)"
    by (rule sum.inter_filter[symmetric]) simp
  also have "\<dots> = card (incident tris p)"
    unfolding inc by simp
  finally show "(\<Sum>i<length tris. count_list (slots (tris ! i)) p) = card (incident tris p)" .
  have "(\<Sum>i<length tris. real (count_list (slots (tris ! i)) p) * f i)
      = (\<Sum>i<length tris. if p \<in> set (slots (tris ! i)) then f i else 0)"
    by (rule sum.cong) (simp_all add: c)
  also have "\<dots> = (\<Sum>i\<in>{i \<in> {..<length tris}. p \<in> set (slots (tris ! i))}. f i)"
    by (rule sum.inter_filter[symmetric]) simp
  also have "\<dots> = (\<Sum>i\<in>incident tris p. f i)"
    unfolding inc by simp
  finally show "(\<Sum>i<length tris. real (count_list (slots (tris ! i)) p) * f i) = (\<Sum>i\<in>incident tris p. f i)" .
qed

lemma finite_incident: "finite (incident tris p)"
  by (simp add: incident_def)

text \<open>
  C6. On a store whose triangles name existing points, three different ones each:
  \<^verbatim>\<open>convert\<close> from a cell field to a point field changes nothing but the target point
  field, which gets, at each point, the arithmetic mean of the source values of the
  triangles incident on the point, and zero at a point with no incident triangle;
  \<^verbatim>\<open>convert\<close> from a point field to a cell field changes nothing but the target cell
  field, which gets, at each triangle, the mean of the source values at its three
  vertices. An empty target name stands for the source name.
\<close>

theorem convert_takes_unweighted_means:
  "(valid_triangles st \<and> proper_triangles st \<and> cell_fields st source_name = Some f \<and>
    length f = length (triangles st) \<longrightarrow>
      (\<exists>r. convert st CellField source_name PointField target_name
               = (None, st\<lparr> point_fields := (point_fields st)
                                ((if target_name = [] then source_name else target_name) \<mapsto> r) \<rparr>) \<and>
           length r = length (points st) \<and>
           (\<forall>p<length (points st).
              r ! p = (if incident (triangles st) p = {} then 0
                       else (\<Sum>i\<in>incident (triangles st) p. f ! i)
                            / real (card (incident (triangles st) p)))))) \<and>
   (valid_triangles st \<and> point_fields st source_name = Some g \<and> length g = length (points st) \<longrightarrow>
      (\<exists>r. convert st PointField source_name CellField target_name
               = (None, st\<lparr> cell_fields := (cell_fields st)
                                ((if target_name = [] then source_name else target_name) \<mapsto> r) \<rparr>) \<and>
           length r = length (triangles st) \<and>
           (\<forall>i<length (triangles st).
              r ! i = (case triangles st ! i of (v0, v1, v2) \<Rightarrow> (g ! v0 + g ! v1 + g ! v2) / 3))))"
proof (intro conjI impI)
  let ?t = "if target_name = [] then source_name else target_name"
  assume a: "valid_triangles st \<and> proper_triangles st \<and> cell_fields st source_name = Some f \<and>
    length f = length (triangles st)"
  then have valid: "valid_triangles st" and src: "cell_fields st source_name = Some f"
    and len: "length (triangles st) \<le> length f"
    and proper: "\<forall>t\<in>set (triangles st). distinct (slots t)"
    by (simp_all add: proper_triangles_def)
  from cell_to_point_result[OF valid src len, of ?t] obtain r where
    res: "cell_to_point st source_name ?t = (None, st\<lparr> point_fields := (point_fields st)(?t \<mapsto> r) \<rparr>)"
    and rl: "length r = length (points st)"
    and each: "\<forall>p<length (points st).
              r ! p = (if (\<Sum>i<length (triangles st). count_list (slots (triangles st ! i)) p) > 0
                       then (\<Sum>i<length (triangles st).
                               real (count_list (slots (triangles st ! i)) p) * f ! i)
                            / real (\<Sum>i<length (triangles st). count_list (slots (triangles st ! i)) p)
                       else 0)"
    by blast
  have "r ! p = (if incident (triangles st) p = {} then 0
                 else (\<Sum>i\<in>incident (triangles st) p. f ! i) / real (card (incident (triangles st) p)))"
    if "p < length (points st)" for p
    using each that sums_over_incident[OF proper, of p] finite_incident[of "triangles st" p]
    by (auto simp: card_gt_0_iff)
  with res rl show "\<exists>r. convert st CellField source_name PointField target_name
               = (None, st\<lparr> point_fields := (point_fields st)(?t \<mapsto> r) \<rparr>) \<and>
           length r = length (points st) \<and>
           (\<forall>p<length (points st).
              r ! p = (if incident (triangles st) p = {} then 0
                       else (\<Sum>i\<in>incident (triangles st) p. f ! i)
                            / real (card (incident (triangles st) p))))"
    by (intro exI[of _ r]) (simp add: convert_def)
next
  let ?t = "if target_name = [] then source_name else target_name"
  assume a: "valid_triangles st \<and> point_fields st source_name = Some g \<and> length g = length (points st)"
  then have valid: "valid_triangles st" and src: "point_fields st source_name = Some g"
    and len: "length (points st) \<le> length g" by simp_all
  from point_to_cell_result[OF valid src len, of ?t] obtain r where
    "point_to_cell st source_name ?t = (None, st\<lparr> cell_fields := (cell_fields st)(?t \<mapsto> r) \<rparr>)"
    "length r = length (triangles st)"
    "\<forall>i<length (triangles st).
              r ! i = (case triangles st ! i of (v0, v1, v2) \<Rightarrow> (g ! v0 + g ! v1 + g ! v2) / 3)"
    by blast
  then show "\<exists>r. convert st PointField source_name CellField target_name
               = (None, st\<lparr> cell_fields := (cell_fields st)(?t \<mapsto> r) \<rparr>) \<and>
           length r = length (triangles st) \<and>
           (\<forall>i<length (triangles st).
              r ! i = (case triangles st ! i of (v0, v1, v2) \<Rightarrow> (g ! v0 + g ! v1 + g ! v2) / 3))"
    by (intro exI[of _ r]) (simp add: convert_def)
qed

lemma convert_quad_cell_to_point:
  "convert quad CellField ''q'' PointField ''t'' =
     (None, quad\<lparr> point_fields := (point_fields quad)(''t'' \<mapsto> [2, 3, 3, 4, 0]) \<rparr>)"
  by (simp add: convert_def cell_to_point_def field_mut_def subscript_def quad_def upt_rec
      cell_to_point_step_def add_at_def divide_step_def Let_def)

lemma convert_quad_point_to_cell:
  "convert quad PointField ''g'' CellField [] =
     (None, quad\<lparr> cell_fields := (cell_fields quad)(''g'' \<mapsto> [2, 3]) \<rparr>)"
  by (simp add: convert_def point_to_cell_def field_mut_def subscript_def quad_def upt_rec
      point_to_cell_step_def add_at_def divide_step_def Let_def)

lemma valid_quad: "valid_triangles quad"
  by (simp add: valid_triangles_def quad_def slots_def)

lemma proper_quad: "proper_triangles quad"
  by (simp add: proper_triangles_def quad_def slots_def)

theorem convert_takes_unweighted_means_witness:
  "valid_triangles quad \<and> proper_triangles quad \<and> cell_fields quad ''q'' = Some [2, 4] \<and>
   length [2, 4 :: real] = length (triangles quad) \<and>
   (\<exists>r. convert quad CellField ''q'' PointField ''t''
            = (None, quad\<lparr> point_fields := (point_fields quad)(''t'' \<mapsto> r) \<rparr>) \<and>
        length r = length (points quad) \<and> r ! 4 = 0) \<and>
   point_fields quad ''g'' = Some [1, 2, 3, 4, 0] \<and>
   length [1, 2, 3, 4, 0 :: real] = length (points quad) \<and>
   (\<exists>r. convert quad PointField ''g'' CellField []
            = (None, quad\<lparr> cell_fields := (cell_fields quad)(''g'' \<mapsto> r) \<rparr>) \<and>
        length r = length (triangles quad) \<and> r ! 0 = 2)"
proof -
  have c: "cell_fields quad ''q'' = Some [2, 4]" by (simp add: quad_def)
  have cl: "length [2, 4 :: real] = length (triangles quad)" by (simp add: quad_def)
  have p: "point_fields quad ''g'' = Some [1, 2, 3, 4, 0]" by (simp add: quad_def)
  have pl: "length [1, 2, 3, 4, 0 :: real] = length (points quad)" by (simp add: quad_def)
  have alone: "incident (triangles quad) 4 = {}"
    by (auto simp: incident_def quad_def slots_def less_Suc_eq numeral_2_eq_2)
  have four: "4 < length (points quad)" by (simp add: quad_def)
  have zero: "0 < length (triangles quad)" "triangles quad ! 0 = (0, 1, 2)" by (simp_all add: quad_def)
  from convert_takes_unweighted_means[of quad "''q''" "[2, 4]" "''t''" "[1, 2, 3, 4, 0]",
      THEN conjunct1, THEN mp] valid_quad proper_quad c cl
  obtain r where r: "convert quad CellField ''q'' PointField ''t''
            = (None, quad\<lparr> point_fields := (point_fields quad)(''t'' \<mapsto> r) \<rparr>)"
    "length r = length (points quad)"
    "\<forall>p<length (points quad).
              r ! p = (if incident (triangles quad) p = {} then 0
                       else (\<Sum>i\<in>incident (triangles quad) p. [2, 4] ! i)
                            / real (card (incident (triangles quad) p)))"
    by auto
  from r(3) four alone have r4: "r ! 4 = 0" by simp
  from convert_takes_unweighted_means[of quad "''g''" "[2, 4]" "[]" "[1, 2, 3, 4, 0]",
      THEN conjunct2, THEN mp] valid_quad p pl
  obtain r' where r': "convert quad PointField ''g'' CellField []
            = (None, quad\<lparr> cell_fields := (cell_fields quad)(''g'' \<mapsto> r') \<rparr>)"
    "length r' = length (triangles quad)"
    "\<forall>i<length (triangles quad).
              r' ! i = (case triangles quad ! i of (v0, v1, v2) \<Rightarrow>
                          ([1, 2, 3, 4, 0] ! v0 + [1, 2, 3, 4, 0] ! v1 + [1, 2, 3, 4, 0] ! v2) / 3)"
    by auto
  from r'(3) zero have r0: "r' ! 0 = 2" by simp
  from valid_quad proper_quad c cl r(1,2) r4 p pl r'(1,2) r0 show ?thesis by blast
qed

section \<open>Round trip of a constant field\<close>

lemma add_at_rounded_exact: "add_at_rounded (\<lambda>x. x) = add_at"
  by (simp add: fun_eq_iff add_at_rounded_def add_at_def)

lemma convert_rounded_exact: "convert_rounded (\<lambda>x. x) = convert"
proof -
  have a: "cell_to_point_step_rounded (\<lambda>x. x) = cell_to_point_step"
    by (intro ext) (simp only: cell_to_point_step_rounded_def cell_to_point_step_def add_at_rounded_exact)
  have b: "point_to_cell_step_rounded (\<lambda>x. x) = point_to_cell_step"
    by (intro ext) (simp only: point_to_cell_step_rounded_def point_to_cell_step_def add_at_rounded_exact)
  have c: "divide_step_rounded (\<lambda>x. x) = divide_step"
    by (simp add: fun_eq_iff divide_step_rounded_def divide_step_def)
  have d: "cell_to_point_rounded (\<lambda>x. x) = cell_to_point"
    by (intro ext) (simp only: cell_to_point_rounded_def cell_to_point_def a c)
  have e: "point_to_cell_rounded (\<lambda>x. x) = point_to_cell"
    by (intro ext) (simp only: point_to_cell_rounded_def point_to_cell_def b c)
  show ?thesis
    by (intro ext) (simp only: convert_rounded_def convert_def d e)
qed

lemma add_at_rounded_list:
  assumes "length cnt = length tf" and "\<forall>k\<in>set ks. k < length tf"
    and "\<forall>p<length tf. tf ! p = real (cnt ! p) * v"
    and "\<forall>p<length tf. \<forall>j. 1 \<le> j \<and> j \<le> cnt ! p + count_list ks p \<longrightarrow> rnd (real j * v) = real j * v"
  shows "\<exists>tf' cnt'. for_loop ks (add_at_rounded rnd v) (tf, cnt) = (None, tf', cnt') \<and>
           length tf' = length tf \<and> length cnt' = length tf \<and>
           (\<forall>p<length tf. cnt' ! p = cnt ! p + count_list ks p \<and> tf' ! p = real (cnt' ! p) * v)"
  using assms
proof (induction ks arbitrary: tf cnt)
  case Nil
  then show ?case by simp
next
  case (Cons k ks)
  let ?tf = "tf[k := rnd (tf ! k + v)]" and ?cnt = "cnt[k := cnt ! k + 1]"
  have k: "k < length tf" using Cons.prems(2) by simp
  have step: "add_at_rounded rnd v k (tf, cnt) = (None, ?tf, ?cnt)"
    using k Cons.prems(1) by (simp add: add_at_rounded_def)
  have "tf ! k + v = real (cnt ! k + 1) * v"
    using Cons.prems(3) k by (simp add: algebra_simps)
  moreover have "rnd (real (cnt ! k + 1) * v) = real (cnt ! k + 1) * v"
    using Cons.prems(4) k by (simp del: of_nat_Suc of_nat_add)
  ultimately have new: "rnd (tf ! k + v) = real (cnt ! k + 1) * v" by simp
  have l: "length ?cnt = length ?tf" using Cons.prems(1) by simp
  have b: "\<forall>j\<in>set ks. j < length ?tf" using Cons.prems(2) by simp
  have inv: "\<forall>p<length ?tf. ?tf ! p = real (?cnt ! p) * v"
  proof (intro allI impI)
    fix p assume p: "p < length ?tf"
    show "?tf ! p = real (?cnt ! p) * v"
    proof (cases "p = k")
      case True
      with k Cons.prems(1) new show ?thesis by simp
    next
      case False
      with p Cons.prems(3) show ?thesis by simp
    qed
  qed
  have h: "\<forall>p<length ?tf. \<forall>j. 1 \<le> j \<and> j \<le> ?cnt ! p + count_list ks p \<longrightarrow> rnd (real j * v) = real j * v"
  proof (intro allI impI)
    fix p j assume p: "p < length ?tf" and j: "1 \<le> j \<and> j \<le> ?cnt ! p + count_list ks p"
    have "?cnt ! p + count_list ks p = cnt ! p + count_list (k # ks) p"
      using p k Cons.prems(1) by (cases "p = k") simp_all
    with j Cons.prems(4) p show "rnd (real j * v) = real j * v" by simp
  qed
  from Cons.IH[OF l b inv h] obtain tf' cnt' where
    r: "for_loop ks (add_at_rounded rnd v) (?tf, ?cnt) = (None, tf', cnt')"
    and l': "length tf' = length ?tf" "length cnt' = length ?tf"
    and e: "\<forall>p<length ?tf. cnt' ! p = ?cnt ! p + count_list ks p \<and> tf' ! p = real (cnt' ! p) * v"
    by blast
  have run: "for_loop (k # ks) (add_at_rounded rnd v) (tf, cnt) = (None, tf', cnt')"
    using step r by simp
  have "cnt' ! p = cnt ! p + count_list (k # ks) p \<and> tf' ! p = real (cnt' ! p) * v"
    if "p < length tf" for p
    using e that k Cons.prems(1) by (cases "p = k") simp_all
  with run l' show ?case by simp
qed

lemma cell_to_point_step_rounded_eq:
  "i < length source_field \<Longrightarrow>
   cell_to_point_step_rounded rnd tris source_field i tc =
     for_loop (slots (tris ! i)) (add_at_rounded rnd (source_field ! i)) tc"
  by (simp add: cell_to_point_step_rounded_def slots_def split: prod.splits)

lemma cell_to_point_rounded_loop:
  assumes valid: "\<forall>t\<in>set tris. \<forall>k\<in>set (slots t). k < np"
    and const: "\<forall>i<length tris. src ! i = v"
    and exact: "\<forall>p<np. \<forall>j. 1 \<le> j \<and> j \<le> corners tris p \<longrightarrow> rnd (real j * v) = real j * v"
    and m: "m \<le> length tris" "m \<le> length src"
  shows "\<exists>tf cnt. for_loop [0..<m] (cell_to_point_step_rounded rnd tris src)
                     (replicate np 0, replicate np 0) = (None, tf, cnt) \<and>
           length tf = np \<and> length cnt = np \<and>
           (\<forall>p<np. cnt ! p = (\<Sum>i<m. count_list (slots (tris ! i)) p) \<and>
                    tf ! p = real (cnt ! p) * v)"
  using m
proof (induction m)
  case 0
  then show ?case by simp
next
  case (Suc m)
  then obtain tf cnt where
    run: "for_loop [0..<m] (cell_to_point_step_rounded rnd tris src) (replicate np 0, replicate np 0)
            = (None, tf, cnt)"
    and len: "length tf = np" "length cnt = np"
    and each: "\<forall>p<np. cnt ! p = (\<Sum>i<m. count_list (slots (tris ! i)) p) \<and> tf ! p = real (cnt ! p) * v"
    by auto
  have "tris ! m \<in> set tris" using Suc.prems(1) by simp
  with valid have a: "\<forall>k\<in>set (slots (tris ! m)). k < length tf" using len by blast
  have b: "\<forall>p<length tf. tf ! p = real (cnt ! p) * v" using each len by simp
  have c: "\<forall>p<length tf. \<forall>j. 1 \<le> j \<and> j \<le> cnt ! p + count_list (slots (tris ! m)) p \<longrightarrow>
             rnd (real j * v) = real j * v"
  proof (intro allI impI)
    fix p j assume p: "p < length tf" and j: "1 \<le> j \<and> j \<le> cnt ! p + count_list (slots (tris ! m)) p"
    have "cnt ! p + count_list (slots (tris ! m)) p = (\<Sum>i<Suc m. count_list (slots (tris ! i)) p)"
      using each p len by simp
    also have "\<dots> \<le> (\<Sum>i<length tris. count_list (slots (tris ! i)) p)"
      by (rule sum_mono2) (use Suc.prems(1) in auto)
    finally have "j \<le> corners tris p" using j by (simp add: corners_def)
    with exact p len j show "rnd (real j * v) = real j * v" by simp
  qed
  have l: "length cnt = length tf" using len by simp
  from add_at_rounded_list[OF l a b c] obtain tf' cnt' where
    step: "for_loop (slots (tris ! m)) (add_at_rounded rnd v) (tf, cnt) = (None, tf', cnt')"
    and len': "length tf' = length tf" "length cnt' = length tf"
    and each': "\<forall>p<length tf. cnt' ! p = cnt ! p + count_list (slots (tris ! m)) p \<and>
                   tf' ! p = real (cnt' ! p) * v"
    by blast
  have "src ! m = v" using const Suc.prems(1) by simp
  then have "cell_to_point_step_rounded rnd tris src m (tf, cnt) = (None, tf', cnt')"
    using step Suc.prems(2) by (simp add: cell_to_point_step_rounded_eq)
  then have "for_loop [0..<Suc m] (cell_to_point_step_rounded rnd tris src)
      (replicate np 0, replicate np 0) = (None, tf', cnt')"
    unfolding for_loop_upt_Suc using run by simp
  with len len' each each' show ?case by simp
qed

lemma divide_rounded_loop:
  assumes "m \<le> length tf"
  shows "length (fold (divide_step_rounded rnd cnt) [0..<m] tf) = length tf \<and>
         (\<forall>p<length tf. fold (divide_step_rounded rnd cnt) [0..<m] tf ! p =
            (if p < m \<and> cnt ! p > 0 then rnd (tf ! p / real (cnt ! p)) else tf ! p))"
  using assms
proof (induction m)
  case 0
  then show ?case by simp
next
  case (Suc m)
  then have IH: "length (fold (divide_step_rounded rnd cnt) [0..<m] tf) = length tf"
    "\<forall>p<length tf. fold (divide_step_rounded rnd cnt) [0..<m] tf ! p =
            (if p < m \<and> cnt ! p > 0 then rnd (tf ! p / real (cnt ! p)) else tf ! p)"
    by auto
  let ?r = "fold (divide_step_rounded rnd cnt) [0..<m] tf"
  have eq: "fold (divide_step_rounded rnd cnt) [0..<Suc m] tf = divide_step_rounded rnd cnt m ?r"
    by simp
  have m: "m < length tf" using Suc.prems by simp
  have "length (divide_step_rounded rnd cnt m ?r) = length tf"
    using IH(1) by (simp add: divide_step_rounded_def)
  moreover have "divide_step_rounded rnd cnt m ?r ! p =
            (if p < Suc m \<and> cnt ! p > 0 then rnd (tf ! p / real (cnt ! p)) else tf ! p)"
    if "p < length tf" for p
  proof (cases "p = m")
    case True
    with IH m show ?thesis by (simp add: divide_step_rounded_def)
  next
    case False
    with IH that show ?thesis by (auto simp: divide_step_rounded_def less_Suc_eq)
  qed
  ultimately show ?case unfolding eq by blast
qed

lemma cell_to_point_rounded_result:
  assumes valid: "valid_triangles st" and src: "cell_fields st source = Some f"
    and len: "length (triangles st) \<le> length f"
    and const: "\<forall>i<length (triangles st). f ! i = v"
    and exact: "\<forall>p<length (points st). \<forall>j. 1 \<le> j \<and> j \<le> corners (triangles st) p \<longrightarrow>
                  rnd (real j * v) = real j * v"
  shows "\<exists>r. cell_to_point_rounded rnd st source target
                = (None, st\<lparr> point_fields := (point_fields st)(target \<mapsto> r) \<rparr>) \<and>
           length r = length (points st) \<and>
           (\<forall>p<length (points st). r ! p = (if 0 < corners (triangles st) p then v else 0))"
proof -
  let ?np = "length (points st)" and ?n = "length (triangles st)" and ?tris = "triangles st"
  from valid have vt: "\<forall>t\<in>set ?tris. \<forall>k\<in>set (slots t). k < ?np" by (simp add: valid_triangles_def)
  from cell_to_point_rounded_loop[OF vt const exact, where m = ?n] len obtain tf cnt where
    run: "for_loop [0..<?n] (cell_to_point_step_rounded rnd ?tris f) (replicate ?np 0, replicate ?np 0)
            = (None, tf, cnt)"
    and l: "length tf = ?np" "length cnt = ?np"
    and each: "\<forall>p<?np. cnt ! p = corners ?tris p \<and> tf ! p = real (cnt ! p) * v"
    by (auto simp: corners_def)
  let ?r = "fold (divide_step_rounded rnd cnt) [0..<?np] tf"
  from divide_rounded_loop[where m = ?np and tf = tf and rnd = rnd and cnt = cnt] l have rl: "length ?r = ?np"
    and re: "\<forall>p<?np. ?r ! p = (if cnt ! p > 0 then rnd (tf ! p / real (cnt ! p)) else tf ! p)"
    by auto
  have sub: "subscript (cell_fields st) source = cell_fields st"
    using src by (rule subscript_present)
  have res: "cell_to_point_rounded rnd st source target
               = (None, st\<lparr> point_fields := (point_fields st)(target \<mapsto> ?r) \<rparr>)"
    using run src
    by (simp add: cell_to_point_rounded_def Let_def field_mut_def sub subscript_update)
  have "?r ! p = (if 0 < corners ?tris p then v else 0)" if p: "p < ?np" for p
  proof (cases "cnt ! p > 0")
    case True
    with each p have c: "0 < corners ?tris p" by simp
    then have "1 \<le> (1::nat) \<and> 1 \<le> corners ?tris p" by simp
    with exact p have "rnd (real 1 * v) = real 1 * v" by blast
    then have "rnd v = v" by simp
    moreover have "tf ! p / real (cnt ! p) = v" using each p True by simp
    ultimately show ?thesis using re p True c by simp
  next
    case False
    with re each p show ?thesis by simp
  qed
  with res rl show ?thesis by blast
qed

lemma point_to_cell_step_rounded_const:
  assumes i: "i < length tf" "length cnt = length tf" and zero: "tf ! i = 0" "cnt ! i = 0"
    and vs: "\<forall>k\<in>set (slots (tris ! i)). k < length g \<and> g ! k = v"
    and exact: "\<forall>j. 1 \<le> j \<and> j \<le> 3 \<longrightarrow> rnd (real j * v) = real j * v"
  shows "point_to_cell_step_rounded rnd tris g i (tf, cnt) = (None, tf[i := 3 * v], cnt[i := 3])"
proof -
  obtain v0 v1 v2 where t: "tris ! i = (v0, v1, v2)" by (cases "tris ! i")
  with vs have g: "v0 < length g" "v1 < length g" "v2 < length g" "g ! v0 = v" "g ! v1 = v" "g ! v2 = v"
    by (simp_all add: slots_def)
  have e1: "rnd v = v" using exact[rule_format, of 1] by simp
  have e2: "rnd (v + v) = 2 * v" using exact[rule_format, of 2] by simp
  have e3: "rnd (2 * v + v) = 3 * v" using exact[rule_format, of 3] by (simp add: algebra_simps)
  show ?thesis
    using i zero g e1 e2 e3
    by (simp add: point_to_cell_step_rounded_def t add_at_rounded_def numeral_3_eq_3)
qed

lemma point_to_cell_rounded_loop:
  assumes vs: "\<forall>i<length tris. \<forall>k\<in>set (slots (tris ! i)). k < length g \<and> g ! k = v"
    and exact: "\<forall>j. 1 \<le> j \<and> j \<le> 3 \<longrightarrow> rnd (real j * v) = real j * v"
    and m: "m \<le> length tris"
  shows "\<exists>tf cnt. for_loop [0..<m] (point_to_cell_step_rounded rnd tris g)
                     (replicate (length tris) 0, replicate (length tris) 0) = (None, tf, cnt) \<and>
           length tf = length tris \<and> length cnt = length tris \<and>
           (\<forall>p<length tris. tf ! p = (if p < m then 3 * v else 0) \<and>
                             cnt ! p = (if p < m then 3 else 0))"
  using m
proof (induction m)
  case 0
  then show ?case by simp
next
  case (Suc m)
  then obtain tf cnt where
    run: "for_loop [0..<m] (point_to_cell_step_rounded rnd tris g)
            (replicate (length tris) 0, replicate (length tris) 0) = (None, tf, cnt)"
    and len: "length tf = length tris" "length cnt = length tris"
    and each: "\<forall>p<length tris. tf ! p = (if p < m then 3 * v else 0) \<and>
                             cnt ! p = (if p < m then 3 else 0)"
    by auto
  have m: "m < length tris" using Suc.prems by simp
  have z: "tf ! m = 0" "cnt ! m = 0" using each m by simp_all
  have s: "\<forall>k\<in>set (slots (tris ! m)). k < length g \<and> g ! k = v" using vs m by simp
  have "point_to_cell_step_rounded rnd tris g m (tf, cnt) = (None, tf[m := 3 * v], cnt[m := 3])"
    by (rule point_to_cell_step_rounded_const) (use m len z s exact in simp_all)
  then have "for_loop [0..<Suc m] (point_to_cell_step_rounded rnd tris g)
      (replicate (length tris) 0, replicate (length tris) 0) = (None, tf[m := 3 * v], cnt[m := 3])"
    unfolding for_loop_upt_Suc using run by simp
  moreover have "\<forall>p<length tris. tf[m := 3 * v] ! p = (if p < Suc m then 3 * v else 0) \<and>
                             cnt[m := 3] ! p = (if p < Suc m then 3 else 0)"
    using each len m by (auto simp: nth_list_update less_Suc_eq)
  ultimately show ?case using len by simp
qed

lemma point_to_cell_rounded_result:
  assumes src: "point_fields st source = Some g"
    and vs: "\<forall>i<length (triangles st). \<forall>k\<in>set (slots (triangles st ! i)). k < length g \<and> g ! k = v"
    and exact: "\<forall>j. 1 \<le> j \<and> j \<le> 3 \<longrightarrow> rnd (real j * v) = real j * v"
  shows "point_to_cell_rounded rnd st source target
           = (None, st\<lparr> cell_fields := (cell_fields st)(target \<mapsto> replicate (length (triangles st)) v) \<rparr>)"
proof -
  let ?n = "length (triangles st)" and ?tris = "triangles st"
  from point_to_cell_rounded_loop[OF vs exact, where m = ?n] obtain tf cnt where
    run: "for_loop [0..<?n] (point_to_cell_step_rounded rnd ?tris g) (replicate ?n 0, replicate ?n 0)
            = (None, tf, cnt)"
    and l: "length tf = ?n" "length cnt = ?n"
    and each: "\<forall>p<?n. tf ! p = 3 * v \<and> cnt ! p = 3"
    by auto
  let ?r = "fold (divide_step_rounded rnd cnt) [0..<?n] tf"
  from divide_rounded_loop[where m = ?n and tf = tf and rnd = rnd and cnt = cnt] l have rl: "length ?r = ?n"
    and re: "\<forall>p<?n. ?r ! p = (if cnt ! p > 0 then rnd (tf ! p / real (cnt ! p)) else tf ! p)"
    by auto
  have e1: "rnd v = v" using exact[rule_format, of 1] by simp
  have rv: "?r ! p = v" if "p < ?n" for p
    using re each that e1 by simp
  have r: "?r = replicate ?n v"
    by (rule nth_equalityI) (use rl rv in simp_all)
  have sub: "subscript (point_fields st) source = point_fields st"
    using src by (rule subscript_present)
  show ?thesis
    using run src r
    by (simp add: point_to_cell_rounded_def Let_def field_mut_def sub subscript_update)
qed

lemma corners_positive:
  assumes "i < length tris" and "k \<in> set (slots (tris ! i))"
  shows "0 < corners tris k"
proof -
  have "count_list (slots (tris ! i)) k \<noteq> 0" using assms(2) by (simp add: count_list_0_iff)
  moreover have "count_list (slots (tris ! i)) k \<le> (\<Sum>i<length tris. count_list (slots (tris ! i)) k)"
    by (rule member_le_sum) (use assms(1) in auto)
  ultimately show ?thesis by (simp add: corners_def)
qed

lemma round_half_even_int: "round_half_even (of_int n) = n"
  by (simp add: round_half_even_def)

lemma round_to_double_scaled:
  assumes lo: "2 ^ 52 \<le> \<bar>x\<bar> * 2 ^ k" and hi: "\<bar>x\<bar> * 2 ^ k < 2 ^ 53"
  shows "round_to_double x = of_int (round_half_even (x * 2 ^ k)) / 2 ^ k"
proof -
  have pos: "0 < \<bar>x\<bar>"
  proof (rule ccontr)
    assume "\<not> 0 < \<bar>x\<bar>"
    then have "x = 0" by simp
    with lo show False by simp
  qed
  then have x: "x \<noteq> 0" by auto
  have p: "2 powr (real_of_int (52 - int k)) = 2 ^ 52 / 2 ^ k"
    by (simp add: powr_diff powr_realpow)
  have q: "2 powr (real_of_int (52 - int k) + 1) = 2 ^ 53 / 2 ^ k"
    by (simp add: powr_add powr_diff powr_realpow)
  have a: "2 powr (real_of_int (52 - int k)) \<le> \<bar>x\<bar>"
    unfolding p using lo by (simp add: field_simps)
  have b: "\<bar>x\<bar> < 2 powr (real_of_int (52 - int k) + 1)"
    unfolding q using hi by (simp add: field_simps)
  have "real_of_int (52 - int k) \<le> log 2 \<bar>x\<bar>"
    using a pos by (simp add: powr_le_iff)
  moreover have "log 2 \<bar>x\<bar> < real_of_int (52 - int k) + 1"
    using b pos by (simp add: less_powr_iff)
  ultimately have fl: "\<lfloor>log 2 \<bar>x\<bar>\<rfloor> = 52 - int k" by (simp add: floor_eq_iff)
  have r: "2 powr - real k = 1 / 2 ^ k"
    by (simp add: powr_minus powr_realpow field_simps)
  have "round_to_double x =
          of_int (round_half_even (x / 2 powr - real k)) * 2 powr - real k"
    using x by (simp add: round_to_double_def Let_def fl)
  then show ?thesis by (simp add: r)
qed

lemma round_to_double_tenth: "round_to_double (1 / 10) = tenth"
proof -
  have "round_to_double (1 / 10) = of_int (round_half_even ((1 / 10) * 2 ^ 56)) / 2 ^ 56"
    by (rule round_to_double_scaled) simp_all
  also have "round_half_even ((1 / 10) * 2 ^ 56) = 7205759403792794"
    by (simp add: round_half_even_def Let_def)
  finally show ?thesis by (simp add: tenth_def)
qed

lemma round_tenth: "round_to_double tenth = tenth"
proof -
  have "round_to_double tenth = of_int (round_half_even (tenth * 2 ^ 56)) / 2 ^ 56"
    by (rule round_to_double_scaled) (simp_all add: tenth_def)
  also have "tenth * 2 ^ 56 = of_int 7205759403792794" by (simp add: tenth_def)
  finally show ?thesis by (simp only: round_half_even_int) (simp add: tenth_def)
qed

lemma round_two_tenths: "round_to_double (tenth + tenth) = 2 * tenth"
proof -
  have "round_to_double (tenth + tenth) = of_int (round_half_even ((tenth + tenth) * 2 ^ 55)) / 2 ^ 55"
    by (rule round_to_double_scaled) (simp_all add: tenth_def)
  also have "(tenth + tenth) * 2 ^ 55 = of_int 7205759403792794" by (simp add: tenth_def)
  finally show ?thesis by (simp only: round_half_even_int) (simp add: tenth_def)
qed

lemma round_three_tenths: "round_to_double (2 * tenth + tenth) = 5404319552844596 / 2 ^ 54"
proof -
  have "round_to_double (2 * tenth + tenth) = of_int (round_half_even ((2 * tenth + tenth) * 2 ^ 54)) / 2 ^ 54"
    by (rule round_to_double_scaled) (simp_all add: tenth_def)
  also have "round_half_even ((2 * tenth + tenth) * 2 ^ 54) = 5404319552844596"
    by (simp add: round_half_even_def Let_def tenth_def)
  finally show ?thesis by simp
qed

lemma round_third: "round_to_double (5404319552844596 / 2 ^ 54 / 3) = 7205759403792795 / 2 ^ 56"
proof -
  have "round_to_double (5404319552844596 / 2 ^ 54 / 3)
          = of_int (round_half_even (5404319552844596 / 2 ^ 54 / 3 * 2 ^ 56)) / 2 ^ 56"
    by (rule round_to_double_scaled) simp_all
  also have "round_half_even (5404319552844596 / 2 ^ 54 / 3 * 2 ^ 56) = 7205759403792795"
    by (simp add: round_half_even_def Let_def)
  finally show ?thesis by simp
qed

lemma round_fives:
  "round_to_double 5 = 5" "round_to_double 10 = 10" "round_to_double 15 = 15"
proof -
  have "round_to_double 5 = of_int (round_half_even (5 * 2 ^ 50)) / 2 ^ 50"
    by (rule round_to_double_scaled) simp_all
  also have "(5::real) * 2 ^ 50 = of_int (5 * 2 ^ 50)" by simp
  finally show "round_to_double 5 = 5" by (simp only: round_half_even_int) simp
  have "round_to_double 10 = of_int (round_half_even (10 * 2 ^ 49)) / 2 ^ 49"
    by (rule round_to_double_scaled) simp_all
  also have "(10::real) * 2 ^ 49 = of_int (10 * 2 ^ 49)" by simp
  finally show "round_to_double 10 = 10" by (simp only: round_half_even_int) simp
  have "round_to_double 15 = of_int (round_half_even (15 * 2 ^ 49)) / 2 ^ 49"
    by (rule round_to_double_scaled) simp_all
  also have "(15::real) * 2 ^ 49 = of_int (15 * 2 ^ 49)" by simp
  finally show "round_to_double 15 = 15" by (simp only: round_half_even_int) simp
qed

text \<open>
  C9. On a store whose triangles name existing points, for a cell field that holds the
  same value \<open>v\<close> on every triangle: \<^verbatim>\<open>convert\<close> to a point field and \<^verbatim>\<open>convert\<close> of that
  point field to a cell field both return, and the resulting cell field holds \<open>v\<close> on
  every triangle, provided that no sum of the conversions is rounded: the multiples
  \<open>j * v\<close> are left as they are by the rounding, for \<open>j\<close> up to 3 and up to the number of
  triangle corners at any point. In exact arithmetic, where \<^verbatim>\<open>convert\<close> is the conversion
  with the identity as the rounding, this is so for every \<open>v\<close>. (An empty target name
  stands for the source name.)
\<close>

theorem convert_round_trip_of_constant:
  assumes "valid_triangles st" and "cell_fields st source_name = Some f"
    and "length f = length (triangles st)" and "\<forall>i<length (triangles st). f ! i = v"
    and "\<forall>j. 1 \<le> j \<and> (j \<le> 3 \<or> (\<exists>p<length (points st). j \<le> corners (triangles st) p)) \<longrightarrow>
             rnd (real j * v) = real j * v"
  shows "(\<exists>st1 st2.
           convert_rounded rnd st CellField source_name PointField point_name = (None, st1) \<and>
           convert_rounded rnd st1 PointField (if point_name = [] then source_name else point_name)
             CellField cell_name = (None, st2) \<and>
           cell_fields st2 (if cell_name = [] then (if point_name = [] then source_name else point_name)
                            else cell_name)
             = Some (replicate (length (triangles st)) v)) \<and>
         convert_rounded (\<lambda>x. x) = convert"
proof -
  let ?pn = "if point_name = [] then source_name else point_name"
  let ?cn = "if cell_name = [] then ?pn else cell_name"
  let ?n = "length (triangles st)" and ?tris = "triangles st"
  have len: "?n \<le> length f" using assms(3) by simp
  have exact1: "\<forall>p<length (points st). \<forall>j. 1 \<le> j \<and> j \<le> corners ?tris p \<longrightarrow>
                  rnd (real j * v) = real j * v"
    using assms(5) by blast
  have exact3: "\<forall>j. 1 \<le> j \<and> j \<le> 3 \<longrightarrow> rnd (real j * v) = real j * v"
    using assms(5) by blast
  from cell_to_point_rounded_result[OF assms(1,2) len assms(4) exact1, of ?pn] obtain r where
    res: "cell_to_point_rounded rnd st source_name ?pn
            = (None, st\<lparr> point_fields := (point_fields st)(?pn \<mapsto> r) \<rparr>)"
    and rl: "length r = length (points st)"
    and each: "\<forall>p<length (points st). r ! p = (if 0 < corners ?tris p then v else 0)"
    by blast
  let ?st1 = "st\<lparr> point_fields := (point_fields st)(?pn \<mapsto> r) \<rparr>"
  have c1: "convert_rounded rnd st CellField source_name PointField point_name = (None, ?st1)"
    using res by (simp add: convert_rounded_def)
  have vertex: "k < length r \<and> r ! k = v" if i: "i < ?n" and k: "k \<in> set (slots (?tris ! i))" for i k
  proof -
    have "?tris ! i \<in> set ?tris" using i by simp
    with assms(1) k have kl: "k < length (points st)" by (auto simp: valid_triangles_def)
    moreover have "0 < corners ?tris k" using i k by (rule corners_positive)
    ultimately show ?thesis using each rl by simp
  qed
  have src1: "point_fields ?st1 ?pn = Some r" by simp
  have vs: "\<forall>i<length (triangles ?st1). \<forall>k\<in>set (slots (triangles ?st1 ! i)). k < length r \<and> r ! k = v"
    using vertex by simp
  from point_to_cell_rounded_result[OF src1 vs exact3, of ?cn]
  have res2: "point_to_cell_rounded rnd ?st1 ?pn ?cn
                = (None, ?st1\<lparr> cell_fields := (cell_fields ?st1)(?cn \<mapsto> replicate ?n v) \<rparr>)"
    by simp
  let ?st2 = "?st1\<lparr> cell_fields := (cell_fields ?st1)(?cn \<mapsto> replicate ?n v) \<rparr>"
  have c2: "convert_rounded rnd ?st1 PointField ?pn CellField cell_name = (None, ?st2)"
    using res2 by (simp add: convert_rounded_def)
  have c3: "cell_fields ?st2 ?cn = Some (replicate ?n v)" by simp
  have "\<exists>st1 st2.
           convert_rounded rnd st CellField source_name PointField point_name = (None, st1) \<and>
           convert_rounded rnd st1 PointField ?pn CellField cell_name = (None, st2) \<and>
           cell_fields st2 ?cn = Some (replicate ?n v)"
    by (rule exI[of _ ?st1], rule exI[of _ ?st2]) (use c1 c2 c3 in blast)
  with convert_rounded_exact show ?thesis by blast
qed

lemma valid_unit_store: "valid_triangles unit_store"
  by (simp add: valid_triangles_def unit_store_def slots_def)

lemma corners_unit_store: "p < 3 \<Longrightarrow> corners (triangles unit_store) p = 1"
  by (auto simp: corners_def unit_store_def slots_def less_Suc_eq numeral_3_eq_3)

theorem convert_round_trip_of_constant_witness:
  "valid_triangles unit_store \<and> cell_fields unit_store ''f'' = Some [5] \<and>
   length [5 :: real] = length (triangles unit_store) \<and>
   [5 :: real] ! 0 = 5 \<and>
   round_to_double 5 = 5 \<and> round_to_double 10 = 10 \<and> round_to_double 15 = 15 \<and>
   (\<exists>st1 st2.
      convert_rounded round_to_double unit_store CellField ''f'' PointField [] = (None, st1) \<and>
      convert_rounded round_to_double st1 PointField ''f'' CellField ''back'' = (None, st2) \<and>
      cell_fields st2 ''back'' = Some [5])"
proof -
  have c: "cell_fields unit_store ''f'' = Some [5]" by (simp add: unit_store_def)
  have l: "length [5 :: real] = length (triangles unit_store)" by (simp add: unit_store_def)
  have u: "\<forall>i<length (triangles unit_store). [5 :: real] ! i = 5" by (simp add: unit_store_def)
  have e: "\<forall>j. 1 \<le> j \<and> (j \<le> 3 \<or> (\<exists>p<length (points unit_store). j \<le> corners (triangles unit_store) p)) \<longrightarrow>
             round_to_double (real j * 5) = real j * 5"
  proof (intro allI impI)
    fix j :: nat
    assume a: "1 \<le> j \<and> (j \<le> 3 \<or> (\<exists>p<length (points unit_store). j \<le> corners (triangles unit_store) p))"
    have "length (points unit_store) = 3" by (simp add: unit_store_def)
    with a corners_unit_store have "1 \<le> j \<and> j \<le> 3" by auto
    then have "j = 1 \<or> j = 2 \<or> j = 3" by auto
    then show "round_to_double (real j * 5) = real j * 5" using round_fives by auto
  qed
  from convert_round_trip_of_constant[OF valid_unit_store c l u e, of "[]" "''back''"]
  have "\<exists>st1 st2.
      convert_rounded round_to_double unit_store CellField ''f'' PointField [] = (None, st1) \<and>
      convert_rounded round_to_double st1 PointField ''f'' CellField ''back'' = (None, st2) \<and>
      cell_fields st2 ''back'' = Some [5]"
    by (simp add: unit_store_def)
  with valid_unit_store c l round_fives show ?thesis by simp
qed

lemma unit_cell_to_point_rounded:
  assumes "rnd x = x"
  shows "convert_rounded rnd (unit_store\<lparr> cell_fields := [''f'' \<mapsto> [x]] \<rparr>) CellField ''f'' PointField ''p'' =
     (None, unit_store\<lparr> cell_fields := [''f'' \<mapsto> [x]],
                        point_fields := (point_fields unit_store)(''p'' \<mapsto> [x, x, x]) \<rparr>)"
  using assms
  by (simp add: convert_rounded_def cell_to_point_rounded_def unit_store_def
      field_mut_def subscript_def cell_to_point_step_rounded_def add_at_rounded_def
      divide_step_rounded_def Let_def numeral_3_eq_3)

lemma unit_point_to_cell_rounded:
  assumes "rnd x = x" and "rnd (x + x) = y" and "rnd (y + x) = z" and "rnd (z / 3) = t"
  shows "convert_rounded rnd
           (unit_store\<lparr> cell_fields := [''f'' \<mapsto> [x]],
                         point_fields := (point_fields unit_store)(''p'' \<mapsto> [x, x, x]) \<rparr>)
           PointField ''p'' CellField ''back'' =
     (None, unit_store\<lparr> cell_fields := [''f'' \<mapsto> [x], ''back'' \<mapsto> [t]],
                        point_fields := (point_fields unit_store)(''p'' \<mapsto> [x, x, x]) \<rparr>)"
  using assms
  by (simp add: convert_rounded_def point_to_cell_rounded_def unit_store_def
      field_mut_def subscript_def point_to_cell_step_rounded_def add_at_rounded_def
      divide_step_rounded_def Let_def numeral_3_eq_3)

text \<open>
  In the arithmetic of \<^verbatim>\<open>double\<close> the round trip does not always give the value back. On
  the unit triangle with the double nearest to \<open>1/10\<close> on its cell, the three points get
  that value, and the cell gets a third of the rounded sum of the three, which is the
  next double above.
\<close>

theorem round_trip_of_tenth_is_rounded:
  "round_to_double (1 / 10) = tenth \<and>
   cell_fields tenth_store ''f'' = Some [tenth] \<and>
   fst (convert_rounded round_to_double tenth_store CellField ''f'' PointField ''p'') = None \<and>
   convert_rounded round_to_double
     (snd (convert_rounded round_to_double tenth_store CellField ''f'' PointField ''p''))
     PointField ''p'' CellField ''back'' =
     (None, unit_store\<lparr> cell_fields := [''f'' \<mapsto> [tenth], ''back'' \<mapsto> [tenth + 1 / 2 ^ 56]],
                        point_fields := (point_fields unit_store)(''p'' \<mapsto> [tenth, tenth, tenth]) \<rparr>) \<and>
   tenth + 1 / 2 ^ 56 \<noteq> tenth"
proof -
  have a: "cell_fields tenth_store ''f'' = Some [tenth]" by (simp add: tenth_store_def)
  have b: "tenth + 1 / 2 ^ 56 = 7205759403792795 / 2 ^ 56" by (simp add: tenth_def)
  have c: "tenth + 1 / 2 ^ 56 \<noteq> tenth" by simp
  have two: "round_to_double (tenth + tenth) = 2 * tenth" by (rule round_two_tenths)
  have three: "round_to_double (2 * tenth + tenth) = 5404319552844596 / 2 ^ 54"
    by (rule round_three_tenths)
  have third: "round_to_double (5404319552844596 / 2 ^ 54 / 3) = tenth + 1 / 2 ^ 56"
    unfolding b by (rule round_third)
  note p = unit_cell_to_point_rounded[of round_to_double tenth, OF round_tenth]
  note q = unit_point_to_cell_rounded[of round_to_double tenth, OF round_tenth two three third]
  have d: "fst (convert_rounded round_to_double tenth_store CellField ''f'' PointField ''p'') = None"
    unfolding tenth_store_def p by simp
  have e: "convert_rounded round_to_double
     (snd (convert_rounded round_to_double tenth_store CellField ''f'' PointField ''p''))
     PointField ''p'' CellField ''back'' =
     (None, unit_store\<lparr> cell_fields := [''f'' \<mapsto> [tenth], ''back'' \<mapsto> [tenth + 1 / 2 ^ 56]],
                        point_fields := (point_fields unit_store)(''p'' \<mapsto> [tenth, tenth, tenth]) \<rparr>)"
    unfolding tenth_store_def p snd_conv by (rule q)
  from round_to_double_tenth a c d e show ?thesis by (intro conjI)
qed


section \<open>Loads that fail\<close>

lemma read_point_no_error: "fst (read_point pd i r) = None"
  by (simp add: read_point_def split: prod.splits)

lemma read_value_no_error: "fst (read_value pd c n i r) = None"
  by (simp add: read_value_def Let_def split: prod.splits)

lemma read_array_no_error: "fst (read_array pd r) = None"
  by (simp add: read_array_def Let_def for_loop_no_error read_value_no_error split: prod.splits)

lemma read_POINTS_error: "fst (read_POINTS pu pd r) = Some e \<Longrightarrow> e = Uninitialised"
  by (auto simp: read_POINTS_def for_loop_no_error read_point_no_error split: prod.splits option.splits)

lemma read_FIELD_error: "fst (read_FIELD pu pd r) = Some e \<Longrightarrow> e = Uninitialised"
  by (auto simp: read_FIELD_def for_loop_no_error read_array_no_error split: prod.splits option.splits)

lemma read_cell_length:
  "read_cell pu i r = (e, r') \<Longrightarrow> length (triangles (surf r')) = length (triangles (surf r))"
  by (auto simp: read_cell_def split: prod.splits if_splits)

lemma read_CELLS_error:
  assumes "read_CELLS pu r = (Some e, r')" and "e \<noteq> Uninitialised"
  shows "triangles (surf r') \<noteq> []"
proof -
  obtain n f1 where a: "extract_count pu (input r) = (n, f1)" by (cases "extract_count pu (input r)")
  obtain s1 f2 where b: "extract_string f1 (s_tok r) = (s1, f2)" by (cases "extract_string f1 (s_tok r)")
  from assms a b obtain m where n: "n = Some m"
    by (cases n) (auto simp: read_CELLS_def)
  let ?r0 = "r\<lparr> input := f2, s_tok := s1,
                 surf := (surf r)\<lparr> triangles := resize m (0, 0, 0) (triangles (surf r)) \<rparr> \<rparr>"
  from assms(1) a b n have run: "for_loop [0..<m] (read_cell pu) ?r0 = (Some e, r')"
    by (simp add: read_CELLS_def)
  have "\<exists>i s0. i \<in> set [0..<m] \<and> length (triangles (surf s0)) = m \<and> read_cell pu i s0 = (Some e, r')"
    by (rule for_loop_error[OF run]) (auto simp: resize_def dest: read_cell_length)
  then obtain i s0 where "i < m" "length (triangles (surf s0)) = m" "read_cell pu i s0 = (Some e, r')"
    by auto
  then have "length (triangles (surf r')) = m" "0 < m" using read_cell_length by fastforce+
  then show ?thesis by auto
qed

lemma vtk_section_error:
  assumes "vtk_section pu pd r = (Some e, r')" and "e \<noteq> Uninitialised"
  shows "triangles (surf r') \<noteq> []"
proof (cases "s_tok r = ''POINTS''")
  case True
  with assms show ?thesis
    using read_POINTS_error[of pu pd r e] by (simp add: vtk_section_def)
next
  case False
  show ?thesis
  proof (cases "s_tok r = ''CELLS''")
    case True
    with assms False show ?thesis
      using read_CELLS_error[of pu r e r'] by (simp add: vtk_section_def)
  next
    case cells: False
    define r1 where "r1 = (if s_tok r = ''CELL_DATA'' \<or> s_tok r = ''POINT_DATA''
                      then r\<lparr> data_type := s_tok r \<rparr> else r)"
    define q where "q = (if s_tok r1 = ''SCALARS'' then read_array pd r1 else (None, r1))"
    have q: "fst q = None" by (simp add: q_def read_array_no_error)
    obtain r2 where r2: "q = (None, r2)" using q by (cases q) simp
    have res: "vtk_section pu pd r =
       (case q of (Some e, r2) \<Rightarrow> (Some e, r2)
        | (None, r2) \<Rightarrow> if s_tok r2 = ''FIELD'' then read_FIELD pu pd r2 else (None, r2))"
      using False cells by (simp add: vtk_section_def r1_def q_def Let_def)
    have "vtk_section pu pd r =
       (if s_tok r2 = ''FIELD'' then read_FIELD pu pd r2 else (None, r2))"
      unfolding res r2 by simp
    with assms show ?thesis
      using read_FIELD_error[of pu pd r2 e] by (auto split: if_splits)
  qed
qed

lemma vtk_loop_error:
  "vtk_loop pu pd r = (Some e, r') \<Longrightarrow> e \<noteq> Uninitialised \<Longrightarrow> triangles (surf r') \<noteq> []"
proof (induction pu pd r rule: vtk_loop.induct)
  case (1 pu pd r)
  obtain s1 f1 where x: "extract_string (input r) (s_tok r) = (s1, f1)"
    by (cases "extract_string (input r) (s_tok r)")
  show ?case
  proof (cases "good f1")
    case False
    with "1.prems"(1) x show ?thesis by (simp add: vtk_loop.simps[of pu pd r])
  next
    case True
    obtain e1 r1 where sec: "vtk_section pu pd (r\<lparr> input := f1, s_tok := s1 \<rparr>) = (e1, r1)"
      by (cases "vtk_section pu pd (r\<lparr> input := f1, s_tok := s1 \<rparr>)")
    show ?thesis
    proof (cases e1)
      case None
      with "1.prems"(1) x True sec have "vtk_loop pu pd r1 = (Some e, r')"
        by (simp add: vtk_loop.simps[of pu pd r])
      with "1.IH"[OF x[symmetric] True sec[symmetric, unfolded None]] "1.prems"(2)
      show ?thesis by simp
    next
      case (Some a)
      with "1.prems"(1) x True sec have "vtk_section pu pd (r\<lparr> input := f1, s_tok := s1 \<rparr>) = (Some e, r')"
        by (simp add: vtk_loop.simps[of pu pd r])
      then show ?thesis using "1.prems"(2) by (rule vtk_section_error)
    qed
  qed
qed

lemma preprocess_error: "preprocess st = (Some e, st') \<Longrightarrow> e = OutOfBounds"
proof -
  assume a: "preprocess st = (Some e, st')"
  then obtain s0 where "for_loop [0..<length (triangles st)] preprocess_step s0 = (Some e, st')"
    by (auto simp: preprocess_def Let_def)
  from for_loop_error[OF this, of "\<lambda>_. True"] obtain i s1 where
    "preprocess_step i s1 = (Some e, st')" by auto
  then show ?thesis
    by (auto simp: preprocess_step_def Let_def split: prod.splits if_splits)
qed

lemma parse_decimal_digits:
  "parse_decimal ''0'' = Some 0" "parse_decimal ''1'' = Some 1" "parse_decimal ''4'' = Some 4"
  by (simp_all add: parse_decimal_def digit_value_def)

lemma read_vtk_bad_cell:
  "read_vtk parse_decimal parse_decimal_double (Some bad_cell_file) st =
     (Some (FormatError ''Triangle expected, numPoints=4found''),
      empty_surface\<lparr> points := [(0, 0, 0)], triangles := [(0, 0, 0)] \<rparr>)"
  by (simp add: read_vtk_def bad_cell_file_def clear_is_empty extract_string_def
      extract_value_def extract_count_def vtk_section_def read_POINTS_def read_CELLS_def
      read_point_def read_cell_def resize_def origin3_def parse_decimal_double_def
      parse_decimal_digits vtk_loop.simps)
     (simp add: empty_surface_def)

lemma underived_clear: "underived (clear st)"
  by (simp add: underived_def clear_def)

lemma for_loop_underived:
  assumes "underived (f s)"
    and "\<And>i s. underived (f s) \<Longrightarrow> underived (f (snd (body i s)))"
  shows "underived (f (snd (for_loop is body s)))"
  using assms(1) by (rule for_loop_invariant[where P = "\<lambda>s. underived (f s)"]) (rule assms(2))

lemma read_point_underived: "underived (surf r) \<Longrightarrow> underived (surf (snd (read_point pd i r)))"
  by (simp add: read_point_def underived_def split: prod.splits)

lemma read_cell_underived: "underived (surf r) \<Longrightarrow> underived (surf (snd (read_cell pu i r)))"
  by (simp add: read_cell_def underived_def split: prod.splits)

lemma read_value_underived: "underived (surf r) \<Longrightarrow> underived (surf (snd (read_value pd c n i r)))"
  by (simp add: read_value_def underived_def Let_def split: prod.splits)

lemma read_POINTS_underived: "underived (surf r) \<Longrightarrow> underived (surf (snd (read_POINTS pu pd r)))"
proof -
  assume a: "underived (surf r)"
  obtain n f1 where x: "extract_count pu (input r) = (n, f1)" by (cases "extract_count pu (input r)")
  obtain s1 f2 where y: "extract_string f1 (s_tok r) = (s1, f2)" by (cases "extract_string f1 (s_tok r)")
  show ?thesis
  proof (cases n)
    case None
    with x y a show ?thesis by (simp add: read_POINTS_def)
  next
    case (Some m)
    have "underived (surf (snd (for_loop [0..<m] (read_point pd)
            (r\<lparr> input := f2, s_tok := s1,
                surf := (surf r)\<lparr> points := resize m origin3 (points (surf r)) \<rparr> \<rparr>))))"
      by (rule for_loop_underived) (use a in \<open>simp_all add: underived_def read_point_underived[unfolded underived_def]\<close>)
    with x y Some show ?thesis by (simp add: read_POINTS_def)
  qed
qed

lemma read_CELLS_underived: "underived (surf r) \<Longrightarrow> underived (surf (snd (read_CELLS pu r)))"
proof -
  assume a: "underived (surf r)"
  obtain n f1 where x: "extract_count pu (input r) = (n, f1)" by (cases "extract_count pu (input r)")
  obtain s1 f2 where y: "extract_string f1 (s_tok r) = (s1, f2)" by (cases "extract_string f1 (s_tok r)")
  show ?thesis
  proof (cases n)
    case None
    with x y a show ?thesis by (simp add: read_CELLS_def)
  next
    case (Some m)
    have "underived (surf (snd (for_loop [0..<m] (read_cell pu)
            (r\<lparr> input := f2, s_tok := s1,
                surf := (surf r)\<lparr> triangles := resize m (0, 0, 0) (triangles (surf r)) \<rparr> \<rparr>))))"
      by (rule for_loop_underived) (use a in \<open>simp_all add: underived_def read_cell_underived[unfolded underived_def]\<close>)
    with x y Some show ?thesis by (simp add: read_CELLS_def)
  qed
qed

lemma read_array_underived: "underived (surf r) \<Longrightarrow> underived (surf (snd (read_array pd r)))"
proof -
  assume a: "underived (surf r)"
  obtain name f1 where w: "extract_string (input r) (data_name r) = (name, f1)"
    by (cases "extract_string (input r) (data_name r)")
  obtain s1 f2 where x: "extract_string f1 (s_tok r) = (s1, f2)" by (cases "extract_string f1 (s_tok r)")
  obtain s2 f3 where y: "extract_string f2 s1 = (s2, f3)" by (cases "extract_string f2 s1")
  obtain s3 f4 where z: "extract_string f3 s2 = (s3, f4)" by (cases "extract_string f3 s2")
  have loop: "underived (surf (snd (for_loop js (read_value pd c name) r0)))"
    if "underived (surf r0)" for js c r0
    using that by (rule for_loop_underived) (simp add: read_value_underived)
  have b: "underived ((surf r)\<lparr> cell_fields := u \<rparr>)" "underived ((surf r)\<lparr> point_fields := u \<rparr>)" for u
    using a by (simp_all add: underived_def)
  from w x y z show ?thesis
    by (simp add: read_array_def Let_def loop b)
qed

lemma read_FIELD_underived: "underived (surf r) \<Longrightarrow> underived (surf (snd (read_FIELD pu pd r)))"
proof -
  assume a: "underived (surf r)"
  obtain s1 f1 where x: "extract_string (input r) (s_tok r) = (s1, f1)"
    by (cases "extract_string (input r) (s_tok r)")
  obtain n f2 where y: "extract_count pu f1 = (n, f2)" by (cases "extract_count pu f1")
  show ?thesis
  proof (cases n)
    case None
    with x y a show ?thesis by (simp add: read_FIELD_def)
  next
    case (Some m)
    have "underived (surf (snd (for_loop [0..<m] (\<lambda>k. read_array pd) (r\<lparr> input := f2, s_tok := s1 \<rparr>))))"
      by (rule for_loop_underived) (use a in \<open>simp_all add: read_array_underived\<close>)
    with x y Some show ?thesis by (simp add: read_FIELD_def)
  qed
qed

lemma vtk_section_underived:
  assumes "underived (surf r)"
  shows "underived (surf (snd (vtk_section pu pd r)))"
proof (cases "s_tok r = ''POINTS'' \<or> s_tok r = ''CELLS''")
  case True
  with assms show ?thesis
    by (auto simp: vtk_section_def read_POINTS_underived read_CELLS_underived)
next
  case False
  define r1 where "r1 = (if s_tok r = ''CELL_DATA'' \<or> s_tok r = ''POINT_DATA''
                      then r\<lparr> data_type := s_tok r \<rparr> else r)"
  define q where "q = (if s_tok r1 = ''SCALARS'' then read_array pd r1 else (None, r1))"
  have r1: "underived (surf r1)" using assms by (simp add: r1_def)
  have q: "underived (surf (snd q))"
    unfolding q_def using r1 by (auto intro: read_array_underived)
  have res: "vtk_section pu pd r =
     (case q of (Some e, r2) \<Rightarrow> (Some e, r2)
      | (None, r2) \<Rightarrow> if s_tok r2 = ''FIELD'' then read_FIELD pu pd r2 else (None, r2))"
    using False by (simp add: vtk_section_def r1_def q_def Let_def)
  obtain e r2 where qq: "q = (e, r2)" by (cases q)
  with q have r2: "underived (surf r2)" by simp
  show ?thesis
  proof (cases e)
    case None
    with res qq r2 show ?thesis
      using read_FIELD_underived[of r2 pu pd] by auto
  next
    case (Some a)
    with res qq r2 show ?thesis by simp
  qed
qed

lemma vtk_loop_underived:
  "underived (surf r) \<Longrightarrow> underived (surf (snd (vtk_loop pu pd r)))"
proof (induction pu pd r rule: vtk_loop.induct)
  case (1 pu pd r)
  obtain s1 f1 where x: "extract_string (input r) (s_tok r) = (s1, f1)"
    by (cases "extract_string (input r) (s_tok r)")
  show ?case
  proof (cases "good f1")
    case False
    with "1.prems" x show ?thesis by (simp add: vtk_loop.simps[of pu pd r])
  next
    case True
    obtain e1 r1 where sec: "vtk_section pu pd (r\<lparr> input := f1, s_tok := s1 \<rparr>) = (e1, r1)"
      by (cases "vtk_section pu pd (r\<lparr> input := f1, s_tok := s1 \<rparr>)")
    have u: "underived (surf r1)"
      using vtk_section_underived[of "r\<lparr> input := f1, s_tok := s1 \<rparr>" pu pd] "1.prems" sec by simp
    show ?thesis
    proof (cases e1)
      case None
      with x True sec have "vtk_loop pu pd r = vtk_loop pu pd r1"
        by (simp add: vtk_loop.simps[of pu pd r])
      with "1.IH"[OF x[symmetric] True sec[symmetric] None u] show ?thesis by simp
    next
      case (Some a)
      with x True sec u show ?thesis by (simp add: vtk_loop.simps[of pu pd r])
    qed
  qed
qed

lemma store_value_underived: "underived st \<Longrightarrow> underived (snd (store_value stod c name data i st))"
  by (simp add: store_value_def underived_def split: option.splits)

lemma store_point_underived: "underived st \<Longrightarrow> underived (snd (store_point stod data i st))"
  by (simp add: store_point_def underived_def Let_def split: option.splits)

lemma store_triangle_underived: "underived st \<Longrightarrow> underived (snd (store_triangle stoul data i st))"
  by (simp add: store_triangle_def underived_def Let_def split: option.splits)

lemma process_data_underived:
  assumes "underived st"
  shows "underived (snd (process_data stod stoul type name data st))"
proof -
  have a: "underived (snd (for_loop is (store_value stod c name data) st'))" if "underived st'" for "is" c st'
    using that by (rule for_loop_invariant) (rule store_value_underived)
  have b: "underived (snd (for_loop is (store_point stod data) st))" for "is"
    using assms by (rule for_loop_invariant) (rule store_point_underived)
  have c: "underived (snd (for_loop is (store_triangle stoul data) st))" for "is"
    using assms by (rule for_loop_invariant) (rule store_triangle_underived)
  have d: "underived (st\<lparr> cell_fields := x \<rparr>)" "underived (st\<lparr> point_fields := x \<rparr>)" for x
    using assms by (simp_all add: underived_def)
  show ?thesis
    using assms a b c d by (simp add: process_data_def Let_def)
qed

lemma vtu_step_underived:
  assumes "underived (surf r)"
  shows "underived (surf (snd (vtu_step sti stod stoul r)))"
proof (cases "match_at_string_start (s_tok r) ''NumberOf''")
  case True
  with assms show ?thesis
    by (auto simp: vtu_step_def number_of_def Let_def underived_def split: option.splits)
next
  case False
  define r1 where "r1 = (if match_at_string_start (s_tok r) ''<Cell'' \<or>
                         match_at_string_start (s_tok r) ''<Point''
                      then r\<lparr> data_type := s_tok r \<rparr> else r)"
  have u1: "underived (surf r1)" using assms by (simp add: r1_def)
  obtain e r2 where n: "read_name r1 = (e, r2)" by (cases "read_name r1")
  then have u2: "underived (surf r2)" using u1 by (auto simp: read_name_def Let_def split: if_splits)
  define r3 where "r3 = (if s_tok r2 = ''<DataArray'' then r2\<lparr> data_start := True \<rparr> else r2)"
  have u3: "underived (surf r3)" using u2 by (simp add: r3_def)
  have pd: "underived st'" if "process_data stod stoul (data_type r3) (data_name r3) data (surf r3) = (e', st')"
    for data e' st'
    using process_data_underived[OF u3, of stod stoul "data_type r3" "data_name r3" data] that by simp
  have da: "underived (surf (snd (read_data_array stod stoul r3)))"
    using u3 by (auto simp: read_data_array_def split: option.splits prod.splits dest: pd)
  show ?thesis
  proof (cases e)
    case (Some a)
    with False n u2 show ?thesis by (simp add: vtu_step_def r1_def Let_def)
  next
    case None
    have "vtu_step sti stod stoul r =
        (if data_start r3
         then (if s_tok r3 = [] then (Some OutOfBounds, r3)
               else if last (s_tok r3) = CHR ''>'' then read_data_array stod stoul r3
               else (None, r3))
         else (None, r3))"
      using False n None by (simp add: vtu_step_def r1_def r3_def Let_def)
    then show ?thesis using u3 da by auto
  qed
qed

lemma vtu_loop_underived:
  "underived (surf r) \<Longrightarrow> underived (surf (snd (vtu_loop sti stod stoul r)))"
proof (induction sti stod stoul r rule: vtu_loop.induct)
  case (1 sti stod stoul r)
  obtain s1 f1 where x: "extract_string (input r) (s_tok r) = (s1, f1)"
    by (cases "extract_string (input r) (s_tok r)")
  show ?case
  proof (cases "good f1")
    case False
    with "1.prems" x show ?thesis by (simp add: vtu_loop.simps[of sti stod stoul r])
  next
    case True
    obtain e1 r1 where sec: "vtu_step sti stod stoul (r\<lparr> input := f1, s_tok := s1 \<rparr>) = (e1, r1)"
      by (cases "vtu_step sti stod stoul (r\<lparr> input := f1, s_tok := s1 \<rparr>)")
    have u: "underived (surf r1)"
      using vtu_step_underived[of "r\<lparr> input := f1, s_tok := s1 \<rparr>" sti stod stoul] "1.prems" sec by simp
    show ?thesis
    proof (cases e1)
      case None
      with x True sec have "vtu_loop sti stod stoul r = vtu_loop sti stod stoul r1"
        by (simp add: vtu_loop.simps[of sti stod stoul r])
      with "1.IH"[OF x[symmetric] True sec[symmetric] None u] show ?thesis by simp
    next
      case (Some a)
      with x True sec u show ?thesis by (simp add: vtu_loop.simps[of sti stod stoul r])
    qed
  qed
qed

lemma read_vtk_format_error:
  assumes "read_vtk pu pd (Some contents) st = (Some (FormatError message), st')"
  shows "triangles st' \<noteq> [] \<and> underived st'"
proof -
  let ?r0 = "\<lparr> input = \<lparr> tokens = contents, good = True \<rparr>, s_tok = [], data_type = [],
                data_name = [], surf = clear st \<rparr>"
  obtain e r where loop: "vtk_loop pu pd ?r0 = (e, r)" by (cases "vtk_loop pu pd ?r0")
  have u: "underived (surf r)"
    using vtk_loop_underived[of ?r0 pu pd] loop by (simp add: underived_clear)
  show ?thesis
  proof (cases e)
    case None
    with assms loop have "preprocess (surf r) = (Some (FormatError message), st')"
      by (simp add: read_vtk_def)
    then have "FormatError message = OutOfBounds" by (rule preprocess_error)
    then show ?thesis by simp
  next
    case (Some e')
    with assms loop have "e' = FormatError message" "st' = surf r" by (simp_all add: read_vtk_def)
    with loop Some u show ?thesis using vtk_loop_error[of pu pd ?r0 e' r] by simp
  qed
qed

lemma read_vtu_format_error:
  assumes "read_vtu sti stod stoul (Some contents) st = (Some (FormatError message), st')"
  shows "underived st'"
proof -
  let ?r0 = "\<lparr> input = \<lparr> tokens = contents, good = True \<rparr>, s_tok = [], data_type = [],
                data_name = [], surf = clear st, data_start = False \<rparr>"
  obtain e r where loop: "vtu_loop sti stod stoul ?r0 = (e, r)" by (cases "vtu_loop sti stod stoul ?r0")
  have u: "underived (surf r)"
    using vtu_loop_underived[of ?r0 sti stod stoul] loop by (simp add: underived_clear)
  show ?thesis
  proof (cases e)
    case None
    with assms loop have "preprocess (surf r) = (Some (FormatError message), st')"
      by (simp add: read_vtu_def)
    then have "FormatError message = OutOfBounds" by (rule preprocess_error)
    then show ?thesis by simp
  next
    case (Some e')
    with assms loop have "st' = surf r" by (simp add: read_vtu_def)
    with u show ?thesis by simp
  qed
qed

lemma parse_decimal_int_small:
  "parse_decimal_int ''1'' = Some 1" "parse_decimal_int ''3'' = Some 3"
  by (simp_all add: parse_decimal_int_def parse_decimal_def digit_value_def)

lemma to_string_small:
  "to_string 2 = ''2''" "to_string 3 = ''3''"
  "to_string (Suc (Suc 0)) = ''2''" "to_string (Suc (Suc (Suc 0))) = ''3''"
proof -
  show "to_string 2 = ''2''" "to_string 3 = ''3''" by code_simp+
  then show "to_string (Suc (Suc 0)) = ''2''" "to_string (Suc (Suc (Suc 0))) = ''3''"
    by (simp_all add: numeral_2_eq_2[symmetric] numeral_3_eq_3[symmetric])
qed

lemma vtu_loop_short_points_file:
  "vtu_loop parse_decimal_int parse_decimal_double parse_decimal
     \<lparr> input = \<lparr> tokens = short_points_file, good = True \<rparr>, s_tok = [], data_type = [],
       data_name = [], surf = empty_surface, data_start = False \<rparr> =
   (Some (FormatError ''<Points> 3 Points 2''),
    \<lparr> input = \<lparr> tokens = [], good = True \<rparr>, s_tok = ''</DataArray>'', data_type = ''<Points>'',
      data_name = ''Points'',
      surf = empty_surface\<lparr> points := [(0, 0, 0), (0, 0, 0), (0, 0, 0)], triangles := [(0, 0, 0)] \<rparr>,
      data_start = True \<rparr>)"
  by (simp add: short_points_file_def quoted_def vtu_loop.simps vtu_step_def number_of_def
      read_name_def read_data_array_def process_data_def size_error_def to_string_small
      match_at_string_start_def split_string_list_def extract_string_def
      parse_decimal_int_small resize_def origin3_def empty_surface_def numeral_3_eq_3 Let_def)

lemma read_vtu_short_points:
  "read_vtu parse_decimal_int parse_decimal_double parse_decimal (Some short_points_file) st =
     (Some (FormatError ''<Points> 3 Points 2''),
      empty_surface\<lparr> points := [(0, 0, 0), (0, 0, 0), (0, 0, 0)], triangles := [(0, 0, 0)] \<rparr>)"
  by (simp add: read_vtu_def clear_is_empty vtu_loop_short_points_file)

text \<open>
  C4. A load that cannot open its file, \<^verbatim>\<open>read_vtk\<close> or \<^verbatim>\<open>read_vtu\<close>, returns with the store
  cleared: no point, no triangle, no field, no cached triangle. A load that throws on a
  malformed record is not rolled back to that state. What it leaves does not depend on
  the contents the store had before the call, and has no cached triangle and no vector
  field, since \<^verbatim>\<open>preprocess\<close> is not reached; but it keeps what was stored before the
  throw. After the exception of \<^verbatim>\<open>read_vtk\<close> for a cell that is not a triangle the store
  has at least one triangle: the triangle vector has been resized for the \<^verbatim>\<open>CELLS\<close>
  section. After the exception of \<^verbatim>\<open>read_vtu\<close> for a data array of the wrong length the
  store has the points and triangles announced before: three points and one triangle
  for the file that announces them and then gives two coordinates.
\<close>

theorem load_failure_states:
  "read_vtk parse_unsigned parse_double None st = (None, empty_surface) \<and>
   read_vtu string_to_int stod stoul None st = (None, empty_surface) \<and>
   read_vtk parse_unsigned parse_double contents st
     = read_vtk parse_unsigned parse_double contents empty_surface \<and>
   read_vtu string_to_int stod stoul contents st
     = read_vtu string_to_int stod stoul contents empty_surface \<and>
   (read_vtk parse_unsigned parse_double (Some vtk_words) st = (Some (FormatError message), st') \<longrightarrow>
      triangles st' \<noteq> [] \<and> triangle_cache st' = [] \<and> cell_vector_fields st' = Map.empty) \<and>
   (read_vtu string_to_int stod stoul (Some vtu_words) st = (Some (FormatError message'), st'') \<longrightarrow>
      triangle_cache st'' = [] \<and> cell_vector_fields st'' = Map.empty) \<and>
   read_vtu parse_decimal_int parse_decimal_double parse_decimal (Some short_points_file) st =
     (Some (FormatError ''<Points> 3 Points 2''),
      empty_surface\<lparr> points := [(0, 0, 0), (0, 0, 0), (0, 0, 0)], triangles := [(0, 0, 0)] \<rparr>)"
proof (intro conjI impI)
  show "read_vtk parse_unsigned parse_double None st = (None, empty_surface)"
    by (simp add: read_vtk_def clear_is_empty)
  show "read_vtu string_to_int stod stoul None st = (None, empty_surface)"
    by (simp add: read_vtu_def clear_is_empty)
  show "read_vtk parse_unsigned parse_double contents st
     = read_vtk parse_unsigned parse_double contents empty_surface"
    by (simp only: read_vtk_def clear_is_empty)
  show "read_vtu string_to_int stod stoul contents st
     = read_vtu string_to_int stod stoul contents empty_surface"
    by (simp only: read_vtu_def clear_is_empty)
  show "read_vtu parse_decimal_int parse_decimal_double parse_decimal (Some short_points_file) st =
     (Some (FormatError ''<Points> 3 Points 2''),
      empty_surface\<lparr> points := [(0, 0, 0), (0, 0, 0), (0, 0, 0)], triangles := [(0, 0, 0)] \<rparr>)"
    by (rule read_vtu_short_points)
next
  assume "read_vtk parse_unsigned parse_double (Some vtk_words) st = (Some (FormatError message), st')"
  from read_vtk_format_error[OF this]
  show "triangles st' \<noteq> []" "triangle_cache st' = []" "cell_vector_fields st' = Map.empty"
    by (simp_all add: underived_def)
next
  assume "read_vtu string_to_int stod stoul (Some vtu_words) st = (Some (FormatError message'), st'')"
  from read_vtu_format_error[OF this]
  show "triangle_cache st'' = []" "cell_vector_fields st'' = Map.empty"
    by (simp_all add: underived_def)
qed

theorem load_failure_states_witness:
  "read_vtk parse_decimal parse_decimal_double None unit_store = (None, empty_surface) \<and>
   read_vtk parse_decimal parse_decimal_double (Some bad_cell_file) unit_store =
     (Some (FormatError ''Triangle expected, numPoints=4found''),
      empty_surface\<lparr> points := [(0, 0, 0)], triangles := [(0, 0, 0)] \<rparr>) \<and>
   triangles (empty_surface\<lparr> points := [(0, 0, 0)], triangles := [(0, 0, 0)] \<rparr>) \<noteq> [] \<and>
   triangle_cache (empty_surface\<lparr> points := [(0, 0, 0)], triangles := [(0, 0, 0)] \<rparr>) = [] \<and>
   read_vtu parse_decimal_int parse_decimal_double parse_decimal (Some short_points_file) unit_store =
     (Some (FormatError ''<Points> 3 Points 2''),
      empty_surface\<lparr> points := [(0, 0, 0), (0, 0, 0), (0, 0, 0)], triangles := [(0, 0, 0)] \<rparr>) \<and>
   triangle_cache (empty_surface\<lparr> points := [(0, 0, 0), (0, 0, 0), (0, 0, 0)],
                                  triangles := [(0, 0, 0)] \<rparr>) = []"
proof -
  note t = load_failure_states[of parse_decimal parse_decimal_double unit_store
      parse_decimal_int parse_decimal_double parse_decimal None bad_cell_file
      "''Triangle expected, numPoints=4found''"
      "empty_surface\<lparr> points := [(0, 0, 0)], triangles := [(0, 0, 0)] \<rparr>"
      short_points_file "''<Points> 3 Points 2''"
      "empty_surface\<lparr> points := [(0, 0, 0), (0, 0, 0), (0, 0, 0)], triangles := [(0, 0, 0)] \<rparr>"]
  from t have a: "read_vtk parse_decimal parse_decimal_double None unit_store = (None, empty_surface)"
    by blast
  from t read_vtk_bad_cell[of unit_store]
  have b: "triangles (empty_surface\<lparr> points := [(0, 0, 0)], triangles := [(0, 0, 0)] \<rparr>) \<noteq> []"
    "triangle_cache (empty_surface\<lparr> points := [(0, 0, 0)], triangles := [(0, 0, 0)] \<rparr>) = []"
    by blast+
  from t read_vtu_short_points[of unit_store]
  have c: "triangle_cache (empty_surface\<lparr> points := [(0, 0, 0), (0, 0, 0), (0, 0, 0)],
                                  triangles := [(0, 0, 0)] \<rparr>) = []"
    by blast
  from a b c read_vtk_bad_cell[of unit_store] read_vtu_short_points[of unit_store]
  show ?thesis by (intro conjI)
qed

text \<open>
  On a file whose only cell has four vertices the call throws, and the store keeps the
  point and the triangle slot read before: it is not cleared.
\<close>

theorem read_vtk_format_error_keeps_data:
  "read_vtk parse_decimal parse_decimal_double (Some bad_cell_file) unit_store =
     (Some (FormatError ''Triangle expected, numPoints=4found''),
      \<lparr> points = [(0, 0, 0)], triangles = [(0, 0, 0)], cell_fields = Map.empty,
        point_fields = Map.empty, cell_vector_fields = Map.empty, triangle_cache = [] \<rparr>)"
  by (simp add: read_vtk_bad_cell empty_surface_def)

section \<open>A legal file\<close>

lemma parse_decimal_small:
  "parse_decimal ''0'' = Some 0" "parse_decimal ''1'' = Some 1" "parse_decimal ''2'' = Some 2"
  "parse_decimal ''3'' = Some 3" "parse_decimal ''4'' = Some 4" "parse_decimal ''5'' = Some 5"
  by (simp_all add: parse_decimal_def digit_value_def)

lemma vtk_loop_unit_file:
  "vtk_loop parse_decimal parse_decimal_double
     \<lparr> input = \<lparr> tokens = unit_file, good = True \<rparr>, s_tok = [], data_type = [],
       data_name = [], surf = empty_surface \<rparr> =
   (None, \<lparr> input = \<lparr> tokens = [], good = False \<rparr>, s_tok = ''default'', data_type = ''POINT_DATA'',
            data_name = ''g'', surf = unit_surface \<rparr>)"
  by (simp add: unit_file_def empty_surface_def extract_string_def
      extract_value_def extract_count_def vtk_section_def read_POINTS_def read_CELLS_def
      read_point_def read_cell_def read_array_def read_value_def resize_field_def assign_def
      resize_def origin3_def parse_decimal_double_def
      parse_decimal_small vtk_loop.simps upt_rec Let_def)
     (simp add: unit_surface_def numeral_3_eq_3)

lemma read_vtk_unit_file:
  "read_vtk parse_decimal parse_decimal_double (Some unit_file) st = (None, unit_store)"
  unfolding read_vtk_def clear_is_empty
  by (simp add: vtk_loop_unit_file preprocess_unit_surface del: vtk_loop.simps)

lemma upt_small: "[0..<1] = [0]" "[0..<3] = [0, 1, 2]"
  by code_simp+

lemma replicate_small: "replicate 3 x = [x, x, x]"
  by (simp add: numeral_3_eq_3)

lemma vtu_loop_unit_file:
  "vtu_loop parse_decimal_int parse_decimal_double parse_decimal
     \<lparr> input = \<lparr> tokens = unit_vtu_file, good = True \<rparr>, s_tok = [], data_type = [],
       data_name = [], surf = empty_surface, data_start = False \<rparr> =
   (None, \<lparr> input = \<lparr> tokens = [], good = False \<rparr>, s_tok = ''</VTKFile>'',
            data_type = ''<PointData>'', data_name = [], surf = unit_surface, data_start = False \<rparr>)"
  by (simp add: unit_vtu_file_def quoted_def vtu_loop.simps vtu_step_def number_of_def
      read_name_def read_data_array_def process_data_def store_value_def store_point_def
      store_triangle_def match_at_string_start_def split_string_list_def extract_string_def
      parse_decimal_int_small parse_decimal_small parse_decimal_double_def
      upt_small replicate_small
      resize_def resize_field_def assign_def origin3_def empty_surface_def unit_surface_def
      Let_def)

lemma read_vtu_unit_file:
  "read_vtu parse_decimal_int parse_decimal_double parse_decimal (Some unit_vtu_file) st
     = (None, unit_store)"
  by (simp add: read_vtu_def clear_is_empty vtu_loop_unit_file preprocess_unit_surface)

section \<open>Missing fields\<close>

lemma interpolate_missing_field:
  "field st field_type field_name = Inl e \<Longrightarrow>
   interpolate st field_type field_name target_points markers target_values
     = (Some (FieldNotFound field_name), target_values)"
  by (auto simp: interpolate_def field_def Let_def split: option.splits)

lemma interpolate2d_missing_field:
  "fields2d st field_name = None \<Longrightarrow>
   interpolate2d st field_name target_points markers target_values
     = (Some (FieldNotFound field_name), target_values)"
  by (simp add: interpolate2d_def field2d_def)

text \<open>
  The queries throw on a missing field: \<^verbatim>\<open>interpolate\<close>, a \<^verbatim>\<open>const\<close> member function,
  throws the missing-field error when the named field is absent from the map of its
  kind, and changes neither the store nor the output vector; so does the 2D
  \<^verbatim>\<open>interpolate\<close>.
\<close>

theorem interpolate_missing_field_throws:
  "((if field_type = CellField then cell_fields st else point_fields st) field_name = None \<longrightarrow>
      interpolate st field_type field_name target_points markers target_values
        = (Some (FieldNotFound field_name), target_values)) \<and>
   (fields2d st2 field_name = None \<longrightarrow>
      interpolate2d st2 field_name target_points2 markers target_values
        = (Some (FieldNotFound field_name), target_values))"
  by (auto simp: interpolate_def interpolate2d_def field_def field2d_def Let_def)

theorem interpolate_missing_field_throws_witness:
  "(if PointField = CellField then cell_fields unit_store else point_fields unit_store) ''f'' = None \<and>
   interpolate unit_store PointField ''f'' [(0, 0, 0)] [True] [] = (Some (FieldNotFound ''f''), []) \<and>
   fields2d polyline ''T'' = None \<and>
   interpolate2d polyline ''T'' [(0, 0)] [True] [] = (Some (FieldNotFound ''T''), [])"
proof -
  have a: "(if PointField = CellField then cell_fields unit_store else point_fields unit_store) ''f'' = None"
    by (simp add: unit_store_def)
  have b: "fields2d polyline ''T'' = None" by (simp add: polyline_def)
  note t = interpolate_missing_field_throws[of PointField unit_store "''f''" "[(0, 0, 0)]" "[True]" "[]"
      polyline "[(0, 0)]"]
  from t[THEN conjunct1, THEN mp, OF a] a b show ?thesis
    using interpolate_missing_field_throws[of PointField unit_store "''T''" "[(0, 0, 0)]" "[True]" "[]"
      polyline "[(0, 0)]", THEN conjunct2, THEN mp, OF b]
    by simp
qed

lemma add_at_error: "add_at x k tc = (Some e, tc') \<Longrightarrow> e = OutOfBounds"
  by (auto simp: add_at_def split: if_splits)

lemma cell_to_point_step_error:
  "cell_to_point_step tris source_field i tc = (Some e, tc') \<Longrightarrow> e = OutOfBounds"
proof -
  assume a: "cell_to_point_step tris source_field i tc = (Some e, tc')"
  obtain v0 v1 v2 where t: "tris ! i = (v0, v1, v2)" by (cases "tris ! i")
  show ?thesis
  proof (cases "i < length source_field")
    case True
    with a t have "for_loop [v0, v1, v2] (add_at (source_field ! i)) tc = (Some e, tc')"
      by (simp add: cell_to_point_step_def)
    from for_loop_error[OF this, of "\<lambda>_. True"] obtain k s0 where
      "add_at (source_field ! i) k s0 = (Some e, tc')" by auto
    then show ?thesis by (rule add_at_error)
  next
    case False
    with a t show ?thesis by (simp add: cell_to_point_step_def)
  qed
qed

lemma point_to_cell_step_error:
  "point_to_cell_step tris source_field i tc = (Some e, tc') \<Longrightarrow> e = OutOfBounds"
proof -
  assume a: "point_to_cell_step tris source_field i tc = (Some e, tc')"
  obtain v0 v1 v2 where t: "tris ! i = (v0, v1, v2)" by (cases "tris ! i")
  with a have "for_loop [v0, v1, v2]
          (\<lambda>id tc. if id < length source_field then add_at (source_field ! id) i tc
                    else (Some OutOfBounds, tc)) tc = (Some e, tc')"
    by (simp add: point_to_cell_step_def)
  from for_loop_error[OF this, of "\<lambda>_. True"] obtain k s0 where
    "(if k < length source_field then add_at (source_field ! k) i s0
      else (Some OutOfBounds, s0)) = (Some e, tc')" by auto
  then show ?thesis by (auto split: if_splits dest: add_at_error)
qed

lemma cell_to_point_error:
  "fst (cell_to_point st source_name target_name) = Some e \<Longrightarrow> e = OutOfBounds"
proof -
  assume a: "fst (cell_to_point st source_name target_name) = Some e"
  define src where "src = (case cell_fields (field_mut st CellField source_name) source_name of
                             None \<Rightarrow> [] | Some f \<Rightarrow> f)"
  obtain e1 tf cnt where l: "for_loop [0..<length (triangles st)] (cell_to_point_step (triangles st) src)
      (replicate (length (points st)) 0, replicate (length (points st)) 0) = (e1, tf, cnt)"
    by (metis prod_cases3)
  with a have "e1 = Some e" by (simp add: cell_to_point_def Let_def src_def)
  with l for_loop_error[of "[0..<length (triangles st)]" "cell_to_point_step (triangles st) src"
      "(replicate (length (points st)) 0, replicate (length (points st)) 0)" e "(tf, cnt)" "\<lambda>_. True"]
  obtain i s0 where "cell_to_point_step (triangles st) src i s0 = (Some e, tf, cnt)" by auto
  then show ?thesis by (rule cell_to_point_step_error)
qed

lemma point_to_cell_error:
  "fst (point_to_cell st source_name target_name) = Some e \<Longrightarrow> e = OutOfBounds"
proof -
  assume a: "fst (point_to_cell st source_name target_name) = Some e"
  define src where "src = (case point_fields (field_mut st PointField source_name) source_name of
                             None \<Rightarrow> [] | Some f \<Rightarrow> f)"
  obtain e1 tf cnt where l: "for_loop [0..<length (triangles st)] (point_to_cell_step (triangles st) src)
      (replicate (length (triangles st)) 0, replicate (length (triangles st)) 0) = (e1, tf, cnt)"
    by (metis prod_cases3)
  with a have "e1 = Some e" by (simp add: point_to_cell_def Let_def src_def)
  with l for_loop_error[of "[0..<length (triangles st)]" "point_to_cell_step (triangles st) src"
      "(replicate (length (triangles st)) 0, replicate (length (triangles st)) 0)" e "(tf, cnt)" "\<lambda>_. True"]
  obtain i s0 where "point_to_cell_step (triangles st) src i s0 = (Some e, tf, cnt)" by auto
  then show ?thesis by (rule point_to_cell_step_error)
qed

lemma convert_error:
  "fst (convert st source_type source_name target_type target_name) \<noteq> Some (FieldNotFound x)"
proof
  assume a: "fst (convert st source_type source_name target_type target_name) = Some (FieldNotFound x)"
  let ?t = "if target_name = [] then source_name else target_name"
  consider (c2p) "source_type = CellField \<and> target_type = PointField"
    | (p2c) "\<not> (source_type = CellField \<and> target_type = PointField) \<and>
             source_type = PointField \<and> target_type = CellField"
    | (other) "\<not> (source_type = CellField \<and> target_type = PointField) \<and>
               \<not> (source_type = PointField \<and> target_type = CellField)" by blast
  then show False
  proof cases
    case c2p
    with a have "fst (cell_to_point st source_name ?t) = Some (FieldNotFound x)"
      by (simp add: convert_def)
    then have "FieldNotFound x = OutOfBounds" by (rule cell_to_point_error)
    then show False by simp
  next
    case p2c
    with a have "fst (point_to_cell st source_name ?t) = Some (FieldNotFound x)"
      by (simp add: convert_def)
    then have "FieldNotFound x = OutOfBounds" by (rule point_to_cell_error)
    then show False by simp
  next
    case other
    with a show False by (simp add: convert_def)
  qed
qed

lemma cell_to_point_source:
  "cell_fields (snd (cell_to_point st source_name target_name)) source_name =
     Some (case cell_fields st source_name of None \<Rightarrow> [] | Some f \<Rightarrow> f)"
  by (simp add: cell_to_point_def Let_def field_mut_def subscript_def
      split: prod.splits option.splits)

lemma point_to_cell_source:
  "point_fields (snd (point_to_cell st source_name target_name)) source_name =
     Some (case point_fields st source_name of None \<Rightarrow> [] | Some f \<Rightarrow> f)"
  by (simp add: point_to_cell_def Let_def field_mut_def subscript_def
      split: prod.splits option.splits)

text \<open>
  C3. The conversions do not throw the missing-field error: no call of \<^verbatim>\<open>convert\<close> does.
  \<^verbatim>\<open>cell_to_point\<close> and \<^verbatim>\<open>point_to_cell\<close> look their source up with the overload of
  \<^verbatim>\<open>field\<close> that inserts, so after the call the source map has an entry under the source
  name, the empty vector when there was none. On a missing source field \<^verbatim>\<open>convert\<close> thus
  adds an empty source field and the target field to the store and, when the surface
  has a triangle, reads the empty source field out of bounds: on the store of an empty
  file the call returns; on the unit triangle, in both directions, it runs into the
  access out of bounds. \<^verbatim>\<open>interpolate\<close> on the same missing field throws the missing-field
  error.
\<close>

theorem convert_missing_field_inserts:
  "fst (convert st source_type source_name target_type target_name) \<noteq> Some (FieldNotFound name) \<and>
   cell_fields (snd (convert st CellField source_name PointField target_name)) source_name =
     Some (case cell_fields st source_name of None \<Rightarrow> [] | Some f \<Rightarrow> f) \<and>
   point_fields (snd (convert st PointField source_name CellField target_name)) source_name =
     Some (case point_fields st source_name of None \<Rightarrow> [] | Some f \<Rightarrow> f) \<and>
   convert blank_store CellField ''missing'' PointField ''p'' =
     (None, blank_store\<lparr> cell_fields := (cell_fields blank_store)(''missing'' \<mapsto> []),
                        point_fields := (point_fields blank_store)(''p'' \<mapsto> []) \<rparr>) \<and>
   convert unit_store CellField ''missing'' PointField ''p'' =
     (Some OutOfBounds,
      unit_store\<lparr> cell_fields := (cell_fields unit_store)(''missing'' \<mapsto> []),
                   point_fields := (point_fields unit_store)(''p'' \<mapsto> [0, 0, 0]) \<rparr>) \<and>
   convert unit_store PointField ''missing'' CellField ''c'' =
     (Some OutOfBounds,
      unit_store\<lparr> point_fields := (point_fields unit_store)(''missing'' \<mapsto> []),
                   cell_fields := (cell_fields unit_store)(''c'' \<mapsto> [0]) \<rparr>) \<and>
   interpolate unit_store CellField ''missing'' [(0, 0, 0)] [True] [] =
     (Some (FieldNotFound ''missing''), [])"
proof -
  have a: "fst (convert st source_type source_name target_type target_name) \<noteq> Some (FieldNotFound name)"
    by (rule convert_error)
  have b: "cell_fields (snd (convert st CellField source_name PointField target_name)) source_name =
     Some (case cell_fields st source_name of None \<Rightarrow> [] | Some f \<Rightarrow> f)"
    by (simp add: convert_def cell_to_point_source)
  have c: "point_fields (snd (convert st PointField source_name CellField target_name)) source_name =
     Some (case point_fields st source_name of None \<Rightarrow> [] | Some f \<Rightarrow> f)"
    by (simp add: convert_def point_to_cell_source)
  have d: "convert blank_store CellField ''missing'' PointField ''p'' =
     (None, blank_store\<lparr> cell_fields := (cell_fields blank_store)(''missing'' \<mapsto> []),
                        point_fields := (point_fields blank_store)(''p'' \<mapsto> []) \<rparr>)"
    "convert unit_store CellField ''missing'' PointField ''p'' =
     (Some OutOfBounds,
      unit_store\<lparr> cell_fields := (cell_fields unit_store)(''missing'' \<mapsto> []),
                   point_fields := (point_fields unit_store)(''p'' \<mapsto> [0, 0, 0]) \<rparr>)"
    "convert unit_store PointField ''missing'' CellField ''c'' =
     (Some OutOfBounds,
      unit_store\<lparr> point_fields := (point_fields unit_store)(''missing'' \<mapsto> []),
                   cell_fields := (cell_fields unit_store)(''c'' \<mapsto> [0]) \<rparr>)"
    "interpolate unit_store CellField ''missing'' [(0, 0, 0)] [True] [] =
     (Some (FieldNotFound ''missing''), [])"
    by (simp_all add: convert_def cell_to_point_def point_to_cell_def field_mut_def subscript_def
      blank_store_def unit_store_def cell_to_point_step_def point_to_cell_step_def add_at_def
      interpolate_def field_def Let_def numeral_3_eq_3)
  from a b c d show ?thesis by (intro conjI)
qed

end
